theory Spec2Isabelle
  imports Complex_Main "HOL-Library.Sublist"
begin

section \<open>Values and errors\<close>

text \<open>
  The mesh builder of \<^verbatim>\<open>src/mesh.py\<close> is embedded function by function. Python's
  floats are read as real numbers, a raised exception is the \<open>Inl\<close> branch of a sum,
  and the mutable \<^verbatim>\<open>MeshTracker\<close> object is a record that every method takes and
  returns.
\<close>

datatype error = IndexError | ValueError | AssertionError | AttributeError | GmshError

text \<open>
  The orientation returned by the segment lookup is \<^verbatim>\<open>True\<close>, \<^verbatim>\<open>False\<close> or
  the integer \<^verbatim>\<open>1\<close> (\<^verbatim>\<open>return None, 1\<close>); \<open>truthy\<close> is what \<^verbatim>\<open>if orientation:\<close>
  tests.
\<close>

datatype pyval = PyBool bool | PyInt int

fun truthy :: "pyval \<Rightarrow> bool" where
  "truthy (PyBool b) = b"
| "truthy (PyInt i) = (i \<noteq> 0)"

section \<open>Geometry of the shapely library\<close>

type_synonym point = "real \<times> real"

text \<open>\<^verbatim>\<open>LineString([p1, p2])\<close>: its two coordinates in the order given.\<close>

type_synonym line_string = "point \<times> point"

text \<open>
  A ring is the coordinate sequence \<^verbatim>\<open>ring.coords\<close>. A geometry handed to the
  surface assembly is a polygon (exterior ring and interior rings; the empty polygon has
  no coordinates at all) or a collection of polygon parts.
\<close>

type_synonym ring = "point list"

datatype geom = Polygon (exterior: ring) (interiors: "ring list")
  | MultiPolygon "(ring \<times> ring list) list"

fun is_empty :: "geom \<Rightarrow> bool" where
  "is_empty (Polygon ext holes) = (ext = [])"
| "is_empty (MultiPolygon parts) = list_all (\<lambda>(ext, holes). ext = []) parts"

text \<open>
  \<^verbatim>\<open>equals_exact(other, tolerance)\<close> compares the coordinates of two geometries of
  the same kind one by one, in the order they are stored. Two coordinates are equal
  when they coincide (tolerance 0) or when their distance is at most the tolerance;
  the distance test is written with squares.
\<close>

definition coord_equal :: "point \<Rightarrow> point \<Rightarrow> real \<Rightarrow> bool" where
  "coord_equal a b tolerance =
     (if tolerance = 0 then a = b
      else 0 \<le> tolerance \<and>
           (fst a - fst b)\<^sup>2 + (snd a - snd b)\<^sup>2 \<le> tolerance\<^sup>2)"

definition point_equals_exact :: "point \<Rightarrow> point \<Rightarrow> real \<Rightarrow> bool" where
  "point_equals_exact p q tolerance = coord_equal p q tolerance"

definition line_equals_exact :: "line_string \<Rightarrow> line_string \<Rightarrow> real \<Rightarrow> bool" where
  "line_equals_exact l s tolerance =
     (coord_equal (fst l) (fst s) tolerance \<and> coord_equal (snd l) (snd s) tolerance)"

text \<open>
  \<^verbatim>\<open>line.boundary.geoms\<close>: the start and the end point of an open line, nothing
  for a closed one (a line whose two coordinates coincide).
\<close>

definition boundary_geoms :: "line_string \<Rightarrow> point list" where
  "boundary_geoms l = (if fst l = snd l then [] else [fst l, snd l])"

section \<open>The geometry model of the mesher\<close>

text \<open>
  The \<^verbatim>\<open>model\<close> object given to the tracker is the geometry of the external
  mesher. It is embedded as a recorder: every entity it creates gets the next tag of
  its kind, counted from 1, and is appended to the list of its kind. A line knows its
  two end points, and negating a line negates its tag and swaps the end points. A line
  from a point to itself is refused: the kernel raises its own exception, which is
  \<open>GmshError\<close> here. A curve
  loop is accepted when consecutive curves share a point and the last curve ends where
  the first one starts; a label may be used for one physical group only.
\<close>

type_synonym gpoint = nat

datatype gline = Line (line_id: int) (start_point: gpoint) (end_point: gpoint)

type_synonym gloop = nat

type_synonym gsurface = nat

datatype entity = SurfaceEntity gsurface | LineEntity gline

datatype call = RemoveAllDuplicates | GenerateMesh nat

record gmodel =
  characteristic_length_min :: "real option"
  characteristic_length_max :: "real option"
  points :: "(point \<times> real option) list"
  lines :: "(gpoint \<times> gpoint) list"
  curve_loops :: "int list list"
  plane_surfaces :: "(gloop \<times> gloop list) list"
  physical_queue :: "(entity \<times> string) list"
  calls :: "call list"

definition Geometry :: gmodel where
  "Geometry = \<lparr>characteristic_length_min = None, characteristic_length_max = None,
     points = [], lines = [], curve_loops = [], plane_surfaces = [],
     physical_queue = [], calls = []\<rparr>"

definition neg :: "gline \<Rightarrow> gline" where
  "neg l = Line (- line_id l) (end_point l) (start_point l)"

definition model_add_point :: "point \<Rightarrow> real option \<Rightarrow> gmodel \<Rightarrow> gpoint \<times> gmodel" where
  "model_add_point xy mesh_size m =
     (Suc (length (points m)), m\<lparr>points := points m @ [(xy, mesh_size)]\<rparr>)"

definition model_add_line :: "gpoint \<Rightarrow> gpoint \<Rightarrow> gmodel \<Rightarrow> error + (gline \<times> gmodel)" where
  "model_add_line g0 g1 m =
     (if g0 = g1 then Inl GmshError
      else Inr (Line (int (length (lines m)) + 1) g0 g1,
                m\<lparr>lines := lines m @ [(g0, g1)]\<rparr>))"

definition model_add_curve_loop :: "gline list \<Rightarrow> gmodel \<Rightarrow> error + (gloop \<times> gmodel)" where
  "model_add_curve_loop curves m =
     (if \<not> list_all (\<lambda>k. end_point (curves ! k) = start_point (curves ! (k + 1)))
            [0 ..< length curves - 1]
      then Inl AssertionError
      else if curves = [] then Inl IndexError
      else if end_point (last curves) \<noteq> start_point (hd curves) then Inl AssertionError
      else Inr (Suc (length (curve_loops m)),
                m\<lparr>curve_loops := curve_loops m @ [map line_id curves]\<rparr>))"

definition model_add_plane_surface ::
  "gloop \<Rightarrow> gloop list \<Rightarrow> gmodel \<Rightarrow> gsurface \<times> gmodel" where
  "model_add_plane_surface curve_loop holes m =
     (Suc (length (plane_surfaces m)),
      m\<lparr>plane_surfaces := plane_surfaces m @ [(curve_loop, holes)]\<rparr>)"

definition model_add_physical :: "entity \<Rightarrow> string \<Rightarrow> gmodel \<Rightarrow> error + gmodel" where
  "model_add_physical ent label m =
     (if label \<in> set (map snd (physical_queue m)) then Inl ValueError
      else Inr (m\<lparr>physical_queue := physical_queue m @ [(ent, label)]\<rparr>))"

definition removeAllDuplicates :: "gmodel \<Rightarrow> gmodel" where
  "removeAllDuplicates m = m\<lparr>calls := calls m @ [RemoveAllDuplicates]\<rparr>"

definition generate_mesh :: "nat \<Rightarrow> gmodel \<Rightarrow> gmodel" where
  "generate_mesh d m = m\<lparr>calls := calls m @ [GenerateMesh d]\<rparr>"

section \<open>MeshTracker\<close>

record tracker =
  shapely_points :: "point list"
  gmsh_points :: "gpoint list"
  shapely_xy_lines :: "line_string list"
  gmsh_xy_lines :: "gline list"
  gmsh_xy_surfaces :: "gsurface list"
  model :: gmodel
  atol :: real

definition MeshTracker :: "gmodel \<Rightarrow> real \<Rightarrow> tracker" where
  "MeshTracker m tol = \<lparr>shapely_points = [], gmsh_points = [], shapely_xy_lines = [],
     gmsh_xy_lines = [], gmsh_xy_surfaces = [], model = m, atol = tol\<rparr>"

subsection \<open>Retrieve existing geometry\<close>

definition get_point_index :: "tracker \<Rightarrow> point \<Rightarrow> nat option" where
  "get_point_index self xy_point =
     map_option fst
       (find (\<lambda>(index, shapely_point). point_equals_exact xy_point shapely_point (atol self))
             (List.enumerate 0 (shapely_points self)))"

text \<open>
  The scan of \<^verbatim>\<open>get_xy_line_index_and_orientation\<close>. Unpacking
  \<^verbatim>\<open>boundary.geoms\<close> into two names raises \<^verbatim>\<open>ValueError\<close> unless there are
  exactly two points.
\<close>

fun scan_xy_lines ::
  "real \<Rightarrow> line_string \<Rightarrow> (nat \<times> line_string) list \<Rightarrow> error + (nat option \<times> pyval)" where
  "scan_xy_lines tol xy_line [] = Inr (None, PyInt 1)"
| "scan_xy_lines tol xy_line ((index, shapely_line) # rest) =
     (if line_equals_exact xy_line shapely_line tol then
        (case boundary_geoms xy_line of
           [first_xy_line, last_xy_line] \<Rightarrow>
             (case boundary_geoms shapely_line of
                [first_xy, last_xy] \<Rightarrow>
                  (if point_equals_exact first_xy_line first_xy tol
                   then Inr (Some index, PyBool True)
                   else Inr (Some index, PyBool False))
              | _ \<Rightarrow> Inl ValueError)
         | _ \<Rightarrow> Inl ValueError)
      else scan_xy_lines tol xy_line rest)"

definition get_xy_line_index_and_orientation ::
  "tracker \<Rightarrow> point \<Rightarrow> point \<Rightarrow> error + (nat option \<times> pyval)" where
  "get_xy_line_index_and_orientation self xy_point1 xy_point2 =
     scan_xy_lines (atol self) (xy_point1, xy_point2)
       (List.enumerate 0 (shapely_xy_lines self))"

subsection \<open>Adding geometry\<close>

definition add_get_point ::
  "point \<Rightarrow> real option \<Rightarrow> tracker \<Rightarrow> error + (gpoint \<times> tracker)" where
  "add_get_point shapely_xy_point resolution self =
     (case get_point_index self shapely_xy_point of
        Some index \<Rightarrow>
          (if index < length (gmsh_points self)
           then Inr (gmsh_points self ! index, self)
           else Inl IndexError)
      | None \<Rightarrow>
          (let (gmsh_point, m) =
                 (case resolution of
                    Some r \<Rightarrow> model_add_point shapely_xy_point (Some r) (model self)
                  | None \<Rightarrow> model_add_point shapely_xy_point None (model self))
           in Inr (gmsh_point,
                   self\<lparr>shapely_points := shapely_points self @ [shapely_xy_point],
                        gmsh_points := gmsh_points self @ [gmsh_point],
                        model := m\<rparr>)))"

definition add_get_xy_line ::
  "point \<Rightarrow> point \<Rightarrow> tracker \<Rightarrow> error + ((gline \<times> pyval) \<times> tracker)" where
  "add_get_xy_line shapely_xy_point1 shapely_xy_point2 self =
     (case get_xy_line_index_and_orientation self shapely_xy_point1 shapely_xy_point2 of
        Inl e \<Rightarrow> Inl e
      | Inr (Some index, orientation) \<Rightarrow>
          (if index < length (gmsh_xy_lines self)
           then Inr ((gmsh_xy_lines self ! index, orientation), self)
           else Inl IndexError)
      | Inr (None, orientation) \<Rightarrow>
          (case add_get_point shapely_xy_point1 None self of
             Inl e \<Rightarrow> Inl e
           | Inr (g1, self1) \<Rightarrow>
               (case add_get_point shapely_xy_point2 None self1 of
                  Inl e \<Rightarrow> Inl e
                | Inr (g2, self2) \<Rightarrow>
                    (case model_add_line g1 g2 (model self2) of
                       Inl e \<Rightarrow> Inl e
                     | Inr (gmsh_line, m) \<Rightarrow>
                         Inr ((gmsh_line, orientation),
                              self2\<lparr>shapely_xy_lines :=
                                       shapely_xy_lines self2
                                         @ [(shapely_xy_point1, shapely_xy_point2)],
                                     gmsh_xy_lines := gmsh_xy_lines self2 @ [gmsh_line],
                                     model := m\<rparr>)))))"

subsection \<open>Channel loop utilities\<close>

fun loop_edges ::
  "(point \<times> point) list \<Rightarrow> gline list \<Rightarrow> tracker \<Rightarrow> error + (gline list \<times> tracker)" where
  "loop_edges [] edges self = Inr (edges, self)"
| "loop_edges ((vertex1, vertex2) # rest) edges self =
     (case add_get_xy_line vertex1 vertex2 self of
        Inl e \<Rightarrow> Inl e
      | Inr ((gmsh_line, orientation), self') \<Rightarrow>
          (if truthy orientation
           then loop_edges rest (edges @ [gmsh_line]) self'
           else loop_edges rest (edges @ [neg gmsh_line]) self'))"

definition xy_channel_loop_from_vertices ::
  "point list \<Rightarrow> tracker \<Rightarrow> error + (gloop \<times> tracker)" where
  "xy_channel_loop_from_vertices vertices self =
     (case loop_edges (map (\<lambda>i. (vertices ! i, vertices ! (i + 1)))
                           [0 ..< length vertices - 1]) [] self of
        Inl e \<Rightarrow> Inl e
      | Inr (edges, self') \<Rightarrow>
          (case model_add_curve_loop edges (model self') of
             Inl e \<Rightarrow> Inl e
           | Inr (channel_loop, m) \<Rightarrow> Inr (channel_loop, self'\<lparr>model := m\<rparr>)))"

subsection \<open>Surfaces\<close>

fun register_vertices ::
  "point list \<Rightarrow> real option \<Rightarrow> point list \<Rightarrow> tracker \<Rightarrow> error + (point list \<times> tracker)" where
  "register_vertices [] resolution vertices self = Inr (vertices, self)"
| "register_vertices (vertex # rest) resolution vertices self =
     (case add_get_point vertex resolution self of
        Inl e \<Rightarrow> Inl e
      | Inr (gmsh_point, self') \<Rightarrow>
          register_vertices rest resolution (vertices @ [vertex]) self')"

fun parse_holes ::
  "ring list \<Rightarrow> real option \<Rightarrow> gloop list \<Rightarrow> tracker \<Rightarrow> error + (gloop list \<times> tracker)" where
  "parse_holes [] resolution hole_loops self = Inr (hole_loops, self)"
| "parse_holes (polygon_hole # rest) resolution hole_loops self =
     (case register_vertices polygon_hole resolution [] self of
        Inl e \<Rightarrow> Inl e
      | Inr (hole_vertices, self1) \<Rightarrow>
          (case xy_channel_loop_from_vertices hole_vertices self1 of
             Inl e \<Rightarrow> Inl e
           | Inr (hole_loop, self2) \<Rightarrow>
               parse_holes rest resolution (hole_loops @ [hole_loop]) self2))"

text \<open>
  \<^verbatim>\<open>add_xy_surface\<close> reads \<^verbatim>\<open>interiors\<close> and \<^verbatim>\<open>exterior\<close> of its argument;
  only a polygon has them, on a multi-part geometry the attribute access raises.
\<close>

fun add_xy_surface ::
  "geom \<Rightarrow> real option \<Rightarrow> tracker \<Rightarrow> error + (gsurface \<times> tracker)" where
  "add_xy_surface (MultiPolygon parts) resolution self = Inl AttributeError"
| "add_xy_surface (Polygon ext holes) resolution self =
     (case parse_holes holes resolution [] self of
        Inl e \<Rightarrow> Inl e
      | Inr (hole_loops, self1) \<Rightarrow>
          (case register_vertices ext resolution [] self1 of
             Inl e \<Rightarrow> Inl e
           | Inr (exterior_vertices, self2) \<Rightarrow>
               (case xy_channel_loop_from_vertices exterior_vertices self2 of
                  Inl e \<Rightarrow> Inl e
                | Inr (channel_loop, self3) \<Rightarrow>
                    (let (plane_surface, m) =
                           model_add_plane_surface channel_loop hole_loops (model self3)
                     in Inr (plane_surface, self3\<lparr>model := m\<rparr>)))))"

section \<open>mesh\_from\_polygons\<close>

subsection \<open>Tiling\<close>

text \<open>
  An \<^verbatim>\<open>OrderedDict\<close> is an association list in insertion order; assigning to a key
  that is present replaces its value in place, a new key goes to the end.
\<close>

definition od_setitem :: "('k \<times> 'v) list \<Rightarrow> 'k \<Rightarrow> 'v \<Rightarrow> ('k \<times> 'v) list" where
  "od_setitem d k v =
     (if k \<in> fst ` set d then map (\<lambda>(k', v'). if k' = k then (k', v) else (k', v')) d
      else d @ [(k, v)])"

text \<open>
  The two nested loops of the tiling. \<^verbatim>\<open>difference\<close> is the operation of the
  geometry library and is a parameter here; the outer loop walks the enumerated items
  from the last to the first, the inner loop walks the items before \<open>lower_index\<close>,
  again from the last to the first.
\<close>

definition diff_polygon ::
  "('g \<Rightarrow> 'g \<Rightarrow> 'g) \<Rightarrow> (string \<times> 'g) list \<Rightarrow> nat \<Rightarrow> 'g \<Rightarrow> 'g" where
  "diff_polygon difference polygon_dict lower_index lower_polygon =
     foldl (\<lambda>diff (higher_index, (higher_name, higher_polygon)).
              difference diff higher_polygon)
           lower_polygon
           (rev (take lower_index (List.enumerate 0 polygon_dict)))"

definition polygons_tiled_dict ::
  "('g \<Rightarrow> 'g \<Rightarrow> 'g) \<Rightarrow> (string \<times> 'g) list \<Rightarrow> (string \<times> 'g) list" where
  "polygons_tiled_dict difference polygon_dict =
     foldl (\<lambda>tiled (lower_index, (lower_name, lower_polygon)).
              od_setitem tiled lower_name
                (diff_polygon difference polygon_dict lower_index lower_polygon))
           []
           (rev (List.enumerate 0 polygon_dict))"

subsection \<open>Adding the surfaces\<close>

text \<open>
  The resolution of a region: \<^verbatim>\<open>resolutions.keys()\<close> is called on whatever was
  passed, and the default \<^verbatim>\<open>None\<close> has no such method.
\<close>

definition resolution_of :: "(string \<rightharpoonup> real) option \<Rightarrow> string \<Rightarrow> error + real option" where
  "resolution_of resolutions polygon_name =
     (case resolutions of
        None \<Rightarrow> Inl AttributeError
      | Some table \<Rightarrow>
          (if polygon_name \<in> dom table then Inr (table polygon_name) else Inr None))"

fun add_surfaces ::
  "(string \<rightharpoonup> real) option \<Rightarrow> (string \<times> geom) list \<Rightarrow> tracker \<Rightarrow> error + tracker" where
  "add_surfaces resolutions [] meshtracker = Inr meshtracker"
| "add_surfaces resolutions ((polygon_name, polygon) # rest) meshtracker =
     (case resolution_of resolutions polygon_name of
        Inl e \<Rightarrow> Inl e
      | Inr resolution \<Rightarrow>
          (case add_xy_surface polygon resolution meshtracker of
             Inl e \<Rightarrow> Inl e
           | Inr (plane_surface, meshtracker1) \<Rightarrow>
               (case model_add_physical (SurfaceEntity plane_surface) polygon_name
                       (model meshtracker1) of
                  Inl e \<Rightarrow> Inl e
                | Inr m \<Rightarrow> add_surfaces resolutions rest (meshtracker1\<lparr>model := m\<rparr>))))"

subsection \<open>Labelling the lines\<close>

text \<open>The decimal digits of \<^verbatim>\<open>i\<close> in the label \<^verbatim>\<open>f"line_{i}"\<close>.\<close>

definition digit_char :: "nat \<Rightarrow> char" where
  "digit_char k = ''0123456789'' ! k"

function py_str :: "nat \<Rightarrow> string" where
  "py_str i = (if 10 \<le> i then py_str (i div 10) else []) @ [digit_char (i mod 10)]"
  by pat_completeness auto
termination
  by (relation "measure id") auto

fun add_physical_lines :: "nat \<Rightarrow> gline list \<Rightarrow> gmodel \<Rightarrow> error + gmodel" where
  "add_physical_lines i [] m = Inr m"
| "add_physical_lines i (line # rest) m =
     (case model_add_physical (LineEntity line) (''line_'' @ py_str i) m of
        Inl e \<Rightarrow> Inl e
      | Inr m' \<Rightarrow> add_physical_lines (i + 1) rest m')"

subsection \<open>The build\<close>

text \<open>
  The tracker holds the model it was given, so the physical groups added by
  \<^verbatim>\<open>mesh_from_polygons\<close> itself go to the model inside the tracker. The tracker is
  made with the default tolerance \<^verbatim>\<open>1E-3\<close>.
\<close>

definition mesh_from_polygons ::
  "(geom \<Rightarrow> geom \<Rightarrow> geom) \<Rightarrow> (string \<times> geom) list \<Rightarrow> (string \<rightharpoonup> real) option
     \<Rightarrow> real \<Rightarrow> real \<Rightarrow> error + gmodel" where
  "mesh_from_polygons difference polygon_dict resolutions
       default_resolution_min default_resolution_max =
     (let geometry = Geometry\<lparr>characteristic_length_min := Some default_resolution_min,
                              characteristic_length_max := Some default_resolution_max\<rparr>;
          tiled = polygons_tiled_dict difference polygon_dict;
          meshtracker = MeshTracker geometry (1 / 1000)
      in case add_surfaces resolutions (rev tiled) meshtracker of
           Inl e \<Rightarrow> Inl e
         | Inr meshtracker' \<Rightarrow>
             (case add_physical_lines 0 (gmsh_xy_lines meshtracker')
                     (removeAllDuplicates (model meshtracker')) of
                Inl e \<Rightarrow> Inl e
              | Inr m \<Rightarrow> Inr (generate_mesh 2 m)))"

section \<open>The registry invariant\<close>

text \<open>
  The geometric and the model lists of the tracker are parallel, and an operation may
  only extend them at the end.
\<close>

definition registry_inv :: "tracker \<Rightarrow> bool" where
  "registry_inv t = (length (gmsh_points t) = length (shapely_points t)
     \<and> length (gmsh_xy_lines t) = length (shapely_xy_lines t))"

definition registry_grows :: "tracker \<Rightarrow> tracker \<Rightarrow> bool" where
  "registry_grows t t' = (prefix (shapely_points t) (shapely_points t')
     \<and> prefix (gmsh_points t) (gmsh_points t')
     \<and> prefix (shapely_xy_lines t) (shapely_xy_lines t')
     \<and> prefix (gmsh_xy_lines t) (gmsh_xy_lines t'))"

text \<open>
  Every line handle in the registry was made by the model: its tag is at most the number
  of lines the model holds.
\<close>

definition line_tags_known :: "tracker \<Rightarrow> bool" where
  "line_tags_known t =
     list_all (\<lambda>l. line_id l \<le> int (length (lines (model t)))) (gmsh_xy_lines t)"

section \<open>Concrete inputs\<close>

text \<open>
  Regions as point sets: the unit square and a smaller square inside it, in the input
  order background first.
\<close>

definition unit_square :: "point set" where
  "unit_square = {p. 0 \<le> fst p \<and> fst p \<le> 1 \<and> 0 \<le> snd p \<and> snd p \<le> 1}"

definition inner_square :: "point set" where
  "inner_square = {p. 1/4 \<le> fst p \<and> fst p \<le> 3/4 \<and> 1/4 \<le> snd p \<and> snd p \<le> 3/4}"

definition two_squares :: "(string \<times> point set) list" where
  "two_squares = [(''R0'', unit_square), (''R1'', inner_square)]"

text \<open>
  Registries: the fresh one of a build, and the ones reached from it by registering the
  segment from \<open>(0, 0)\<close> to \<open>(1, 0)\<close> and then either the segment from \<open>(1, 0)\<close>
  to \<open>(1, 1)\<close> or the first segment reversed.
\<close>

definition tracker0 :: tracker where
  "tracker0 = MeshTracker Geometry (1 / 1000)"

definition tracker_AB :: tracker where
  "tracker_AB = \<lparr>shapely_points = [(0, 0), (1, 0)], gmsh_points = [1, 2],
     shapely_xy_lines = [((0, 0), (1, 0))], gmsh_xy_lines = [Line 1 1 2],
     gmsh_xy_surfaces = [],
     model = Geometry\<lparr>points := [((0, 0), None), ((1, 0), None)], lines := [(1, 2)]\<rparr>,
     atol = 1 / 1000\<rparr>"

definition tracker_ABC :: tracker where
  "tracker_ABC = \<lparr>shapely_points = [(0, 0), (1, 0), (1, 1)], gmsh_points = [1, 2, 3],
     shapely_xy_lines = [((0, 0), (1, 0)), ((1, 0), (1, 1))],
     gmsh_xy_lines = [Line 1 1 2, Line 2 2 3], gmsh_xy_surfaces = [],
     model = Geometry\<lparr>points := [((0, 0), None), ((1, 0), None), ((1, 1), None)],
                       lines := [(1, 2), (2, 3)]\<rparr>,
     atol = 1 / 1000\<rparr>"

definition tracker_ABBA :: tracker where
  "tracker_ABBA = \<lparr>shapely_points = [(0, 0), (1, 0)], gmsh_points = [1, 2],
     shapely_xy_lines = [((0, 0), (1, 0)), ((1, 0), (0, 0))],
     gmsh_xy_lines = [Line 1 1 2, Line 2 2 1], gmsh_xy_surfaces = [],
     model = Geometry\<lparr>points := [((0, 0), None), ((1, 0), None)], lines := [(1, 2), (2, 1)]\<rparr>,
     atol = 1 / 1000\<rparr>"

definition square_ring :: ring where
  "square_ring = [(0, 0), (1, 0), (1, 1), (0, 1), (0, 0)]"

definition far_ring :: ring where
  "far_ring = [(2, 0), (3, 0), (3, 1), (2, 1), (2, 0)]"

definition no_resolutions :: "string \<rightharpoonup> real" where
  "no_resolutions = Map.empty"

text \<open>The difference of two polygons that do not overlap: the first one.\<close>

definition keep_polygon :: "geom \<Rightarrow> geom \<Rightarrow> geom" where
  "keep_polygon a b = a"

text \<open>The model that the build of one unit square named \<open>core\<close> returns.\<close>

definition built_core :: gmodel where
  "built_core = \<lparr>characteristic_length_min = Some (1 / 100),
     characteristic_length_max = Some (1 / 10),
     points = [((0, 0), None), ((1, 0), None), ((1, 1), None), ((0, 1), None)],
     lines = [(1, 2), (2, 3), (3, 4), (4, 1)],
     curve_loops = [[1, 2, 3, 4]], plane_surfaces = [(1, [])],
     physical_queue =
       [(SurfaceEntity 1, ''core''),
        (LineEntity (Line 1 1 2), ''line_0''),
        (LineEntity (Line 2 2 3), ''line_1''),
        (LineEntity (Line 3 3 4), ''line_2''),
        (LineEntity (Line 4 4 1), ''line_3'')],
     calls = [RemoveAllDuplicates, GenerateMesh 2]\<rparr>"

section \<open>The tiling\<close>

text \<open>
  For the claims about areas a polygon is the set of points it covers and
  \<^verbatim>\<open>difference\<close> is set difference. With distinct region names the tiled dictionary
  lists the regions in reverse input order, each with its polygon cut by the polygons
  before it in the input.
\<close>

lemma foldl_difference:
  "foldl (\<lambda>d (j, (n, P)). d - P) A xs = A - \<Union> (snd ` set (map snd xs))"
  by (induction xs arbitrary: A) auto

lemma diff_polygon_sets:
  "diff_polygon (-) ps i P = P - \<Union> (snd ` set (take i ps))"
proof -
  have "map snd (take i (List.enumerate 0 ps)) = take i ps"
    by (simp add: take_map [symmetric])
  then have "set (map snd (rev (take i (List.enumerate 0 ps)))) = set (take i ps)"
    by (simp only: set_map set_rev) (simp only: set_map [symmetric])
  then show ?thesis
    unfolding diff_polygon_def by (simp only: foldl_difference)
qed

lemma foldl_od_setitem:
  "distinct (map (\<lambda>x. fst (snd x)) xs) \<Longrightarrow>
   fst ` set acc \<inter> (\<lambda>x. fst (snd x)) ` set xs = {} \<Longrightarrow>
   foldl (\<lambda>tiled (i, (n, P)). od_setitem tiled n (f i P)) acc xs
     = acc @ map (\<lambda>(i, (n, P)). (n, f i P)) xs"
proof (induction xs arbitrary: acc)
  case Nil
  then show ?case by simp
next
  case (Cons x xs)
  obtain i n P where x: "x = (i, (n, P))" by (cases x) auto
  from Cons.prems have fresh: "n \<notin> fst ` set acc" by (auto simp: x)
  then have step: "od_setitem acc n (f i P) = acc @ [(n, f i P)]"
    by (simp add: od_setitem_def)
  have "fst ` set (acc @ [(n, f i P)]) \<inter> (\<lambda>x. fst (snd x)) ` set xs = {}"
    using Cons.prems by (auto simp: x)
  moreover have "distinct (map (\<lambda>x. fst (snd x)) xs)" using Cons.prems by simp
  ultimately show ?case
    using Cons.IH [of "acc @ [(n, f i P)]"] by (simp add: x step)
qed

lemma keys_rev_enumerate:
  "map (\<lambda>x. fst (snd x)) (rev (List.enumerate n ps)) = rev (map fst ps)"
proof -
  have "map (\<lambda>x. fst (snd x)) (rev (List.enumerate n ps))
          = map fst (map snd (rev (List.enumerate n ps)))"
    by (simp add: comp_def)
  also have "\<dots> = map fst (rev (map snd (List.enumerate n ps)))"
    by (simp only: rev_map)
  also have "\<dots> = rev (map fst ps)"
    by (simp add: rev_map)
  finally show ?thesis .
qed

lemma polygons_tiled_dict_map:
  assumes "distinct (map fst ps)"
  shows "polygons_tiled_dict difference ps
           = map (\<lambda>(i, (n, P)). (n, diff_polygon difference ps i P)) (rev (List.enumerate 0 ps))"
proof -
  from assms have "distinct (map (\<lambda>x. fst (snd x)) (rev (List.enumerate 0 ps)))"
    by (simp only: keys_rev_enumerate distinct_rev)
  then show ?thesis
    unfolding polygons_tiled_dict_def
    using foldl_od_setitem [of "rev (List.enumerate 0 ps)" "[]" "diff_polygon difference ps"]
    by simp
qed

lemma tiled_keys:
  assumes "distinct (map fst ps)"
  shows "map fst (polygons_tiled_dict difference ps) = rev (map fst ps)"
proof -
  have "map fst (map (\<lambda>(i, (n, P)). (n, diff_polygon difference ps i P)) (rev (List.enumerate 0 ps)))
        = map (\<lambda>x. fst (snd x)) (rev (List.enumerate 0 ps))"
    by (simp add: case_prod_beta comp_def)
  then show ?thesis
    by (simp only: polygons_tiled_dict_map [OF assms] keys_rev_enumerate)
qed

lemma tiled_member:
  assumes "distinct (map fst ps)"
  shows "(n, L) \<in> set (polygons_tiled_dict difference ps)
         \<longleftrightarrow> (\<exists>i < length ps. n = fst (ps ! i) \<and> L = diff_polygon difference ps i (snd (ps ! i)))"
proof
  assume "(n, L) \<in> set (polygons_tiled_dict difference ps)"
  then obtain i P where "(i, (n, P)) \<in> set (List.enumerate 0 ps)"
    and L: "L = diff_polygon difference ps i P"
    unfolding polygons_tiled_dict_map [OF assms] by auto
  then have "i < length ps" "ps ! i = (n, P)"
    by (auto simp: in_set_enumerate_eq)
  with L show "\<exists>i < length ps. n = fst (ps ! i) \<and> L = diff_polygon difference ps i (snd (ps ! i))"
    by auto
next
  assume "\<exists>i < length ps. n = fst (ps ! i) \<and> L = diff_polygon difference ps i (snd (ps ! i))"
  then obtain i where i: "i < length ps" "n = fst (ps ! i)"
    "L = diff_polygon difference ps i (snd (ps ! i))" by blast
  then have "(i, (n, snd (ps ! i))) \<in> set (rev (List.enumerate 0 ps))"
    by (simp add: in_set_enumerate_eq)
  then show "(n, L) \<in> set (polygons_tiled_dict difference ps)"
    unfolding polygons_tiled_dict_map [OF assms] using i(3) by force
qed

lemma tiled_lookup:
  assumes "distinct (map fst ps)" and "i < length ps"
  shows "map_of (polygons_tiled_dict difference ps) (fst (ps ! i))
           = Some (diff_polygon difference ps i (snd (ps ! i)))"
proof -
  have "distinct (map fst (polygons_tiled_dict difference ps))"
    using assms(1) by (simp add: tiled_keys)
  moreover have "(fst (ps ! i), diff_polygon difference ps i (snd (ps ! i)))
                   \<in> set (polygons_tiled_dict difference ps)"
    using assms by (auto simp: tiled_member)
  ultimately show ?thesis by simp
qed

lemma inner_in_unit: "inner_square - unit_square = {}"
  by (auto simp: inner_square_def unit_square_def)

lemma centre_in_both: "(1/2, 1/2) \<in> unit_square" "(1/2, 1/2) \<in> inner_square"
  by (simp_all add: inner_square_def unit_square_def)

lemma two_squares_tiled:
  "polygons_tiled_dict (-) two_squares = [(''R1'', {}), (''R0'', unit_square)]"
  by (simp add: two_squares_def polygons_tiled_dict_def diff_polygon_def od_setitem_def inner_in_unit)

lemma squares_differ: "unit_square \<noteq> unit_square - inner_square" "inner_square \<noteq> {}"
  using centre_in_both by auto

text \<open>
  Claim C1, as stated: a region keeps its polygon minus all later polygons, so that for
  R0 (background) then R1 (inside R0) the layer of R0 is R0 minus R1 and the layer of R1
  is R1. On the unit square and the inner square the code gives R0 the whole unit square,
  which is not the unit square minus the inner one, and gives R1 the empty set, which is
  not the inner square.
\<close>

theorem tiling_last_wins_counterexample:
  "map_of (polygons_tiled_dict (-) two_squares) ''R0'' = Some unit_square
   \<and> unit_square \<noteq> unit_square - inner_square
   \<and> map_of (polygons_tiled_dict (-) two_squares) ''R1'' = Some {}
   \<and> inner_square \<noteq> {}"
  by (simp add: two_squares_tiled squares_differ)

text \<open>
  Claim C1, amended: the tiling is first-declared-wins. For every input with distinct
  names, the resolved layer of the region at index \<open>i\<close> is its polygon minus the union
  of the polygons at the indices before \<open>i\<close>; the first region is unchanged and a
  later region loses all contested area. For R0 and then R1 inside R0 the layer of R0
  is R0 and the layer of R1 is empty.
\<close>

theorem tiling_first_wins:
  assumes "distinct (map fst ps)" and "i < length ps"
  shows "map_of (polygons_tiled_dict (-) ps) (fst (ps ! i))
           = Some (snd (ps ! i) - \<Union> (snd ` set (take i ps)))
         \<and> (ps = [(n0, R0), (n1, R1)] \<and> R1 \<subseteq> R0
              \<longrightarrow> polygons_tiled_dict (-) ps = [(n1, {}), (n0, R0)])"
proof (intro conjI impI)
  show "map_of (polygons_tiled_dict (-) ps) (fst (ps ! i))
           = Some (snd (ps ! i) - \<Union> (snd ` set (take i ps)))"
    using tiled_lookup [OF assms, of "(-)"] by (simp add: diff_polygon_sets)
next
  assume two: "ps = [(n0, R0), (n1, R1)] \<and> R1 \<subseteq> R0"
  with assms(1) have "n1 \<noteq> n0" by auto
  moreover from two have "R1 - R0 = {}" by auto
  ultimately show "polygons_tiled_dict (-) ps = [(n1, {}), (n0, R0)]"
    using two by (simp add: polygons_tiled_dict_def diff_polygon_def od_setitem_def)
qed

theorem tiling_first_wins_witness:
  "distinct (map fst two_squares) \<and> 1 < length two_squares
   \<and> inner_square \<subseteq> unit_square
   \<and> map_of (polygons_tiled_dict (-) two_squares) ''R1'' = Some (inner_square - unit_square)
   \<and> polygons_tiled_dict (-) two_squares = [(''R1'', {}), (''R0'', unit_square)]"
proof -
  have d: "distinct (map fst two_squares)" and l: "1 < length two_squares"
    by (simp_all add: two_squares_def)
  have sub: "inner_square \<subseteq> unit_square"
    using inner_in_unit by blast
  have two: "two_squares = [(''R0'', unit_square), (''R1'', inner_square)]"
    by (simp add: two_squares_def)
  from tiling_first_wins [OF d l, of "''R0''" unit_square "''R1''" inner_square] two sub
  have "map_of (polygons_tiled_dict (-) two_squares) (fst (two_squares ! 1))
           = Some (snd (two_squares ! 1) - \<Union> (snd ` set (take 1 two_squares)))"
    and "polygons_tiled_dict (-) two_squares = [(''R1'', {}), (''R0'', unit_square)]"
    by blast+
  moreover have "fst (two_squares ! 1) = ''R1''"
    "snd (two_squares ! 1) - \<Union> (snd ` set (take 1 two_squares)) = inner_square - unit_square"
    by (simp_all add: two_squares_def)
  ultimately show ?thesis
    using d l sub by simp
qed

lemma layer_member:
  assumes "distinct (map fst ps)" and "map_of (polygons_tiled_dict (-) ps) n = Some A"
  shows "\<exists>i < length ps. n = fst (ps ! i) \<and> A = snd (ps ! i) - \<Union> (snd ` set (take i ps))"
proof -
  from assms(2) have "(n, A) \<in> set (polygons_tiled_dict (-) ps)"
    by (rule map_of_SomeD)
  then show ?thesis
    by (simp add: tiled_member [OF assms(1)] diff_polygon_sets)
qed

lemma earlier_layer_disjoint:
  assumes "i < j" and "j < length ps"
  shows "(snd (ps ! i) - X) \<inter> (snd (ps ! j) - \<Union> (snd ` set (take j ps))) = {}"
proof -
  have "ps ! i \<in> set (take j ps)"
    using assms by (auto simp: in_set_conv_nth intro!: exI [of _ i])
  then show ?thesis by auto
qed

lemma layers_cover:
  assumes "x \<in> snd (ps ! k)" and "k < length ps"
  shows "\<exists>i < length ps. x \<in> snd (ps ! i) - \<Union> (snd ` set (take i ps))"
proof -
  define i where "i = (LEAST i. i < length ps \<and> x \<in> snd (ps ! i))"
  from assms have "k < length ps \<and> x \<in> snd (ps ! k)"
    by simp
  then have i: "i < length ps \<and> x \<in> snd (ps ! i)"
    unfolding i_def by (rule LeastI)
  have least: "\<not> (j < length ps \<and> x \<in> snd (ps ! j))" if "j < i" for j
    using that unfolding i_def by (rule not_less_Least)
  have "x \<notin> \<Union> (snd ` set (take i ps))"
  proof
    assume "x \<in> \<Union> (snd ` set (take i ps))"
    then obtain q where q: "q \<in> set (take i ps)" "x \<in> snd q"
      by blast
    from q(1) obtain j where j: "j < length (take i ps)" "take i ps ! j = q"
      unfolding in_set_conv_nth by blast
    from j(1) have "j < i" "j < length ps"
      by simp_all
    moreover from j have "ps ! j = q"
      by simp
    ultimately show False
      using least [of j] q(2) by simp
  qed
  with i show ?thesis by blast
qed

lemma in_layer_union: "(n, L) \<in> set T \<Longrightarrow> x \<in> L \<Longrightarrow> x \<in> \<Union> (snd ` set T)"
  by force

text \<open>
  Claim C6: for every input with distinct names, the resolved layers of two different
  names are disjoint, and the union of all resolved layers is the union of all input
  polygons.
\<close>

theorem resolved_layers_partition:
  assumes "distinct (map fst ps)"
  shows "(\<forall>n1 n2 A B. n1 \<noteq> n2
            \<longrightarrow> map_of (polygons_tiled_dict (-) ps) n1 = Some A
            \<longrightarrow> map_of (polygons_tiled_dict (-) ps) n2 = Some B
            \<longrightarrow> A \<inter> B = {})
         \<and> \<Union> (snd ` set (polygons_tiled_dict (-) ps)) = \<Union> (snd ` set ps)"
proof (intro conjI allI impI)
  fix n1 n2 A B
  assume ne: "n1 \<noteq> n2"
    and A: "map_of (polygons_tiled_dict (-) ps) n1 = Some A"
    and B: "map_of (polygons_tiled_dict (-) ps) n2 = Some B"
  from layer_member [OF assms A] obtain i where
    i: "i < length ps" "n1 = fst (ps ! i)" "A = snd (ps ! i) - \<Union> (snd ` set (take i ps))"
    by blast
  from layer_member [OF assms B] obtain j where
    j: "j < length ps" "n2 = fst (ps ! j)" "B = snd (ps ! j) - \<Union> (snd ` set (take j ps))"
    by blast
  from ne i(2) j(2) have "i \<noteq> j" by auto
  then consider "i < j" | "j < i" by linarith
  then show "A \<inter> B = {}"
  proof cases
    case 1
    from earlier_layer_disjoint [OF 1 j(1)] show ?thesis
      unfolding i(3) j(3) .
  next
    case 2
    from earlier_layer_disjoint [OF 2 i(1)] show ?thesis
      unfolding i(3) j(3) by blast
  qed
next
  show "\<Union> (snd ` set (polygons_tiled_dict (-) ps)) = \<Union> (snd ` set ps)"
  proof (intro equalityI subsetI)
    fix x assume "x \<in> \<Union> (snd ` set (polygons_tiled_dict (-) ps))"
    then obtain n L where "(n, L) \<in> set (polygons_tiled_dict (-) ps)" "x \<in> L"
      by auto
    then obtain i where "i < length ps" "x \<in> snd (ps ! i)"
      by (auto simp: tiled_member [OF assms] diff_polygon_sets)
    then show "x \<in> \<Union> (snd ` set ps)"
      by (meson UN_I nth_mem)
  next
    fix x assume "x \<in> \<Union> (snd ` set ps)"
    then obtain k where "k < length ps" "x \<in> snd (ps ! k)"
      by (auto simp: in_set_conv_nth)
    from layers_cover [OF this(2) this(1)] obtain i where
      i: "i < length ps" "x \<in> snd (ps ! i) - \<Union> (snd ` set (take i ps))" by blast
    have "(fst (ps ! i), snd (ps ! i) - \<Union> (snd ` set (take i ps)))
            \<in> set (polygons_tiled_dict (-) ps)"
      using i(1) by (auto simp: tiled_member [OF assms] diff_polygon_sets)
    then show "x \<in> \<Union> (snd ` set (polygons_tiled_dict (-) ps))"
      using i(2) by (rule in_layer_union)
  qed
qed

theorem resolved_layers_partition_witness:
  "distinct (map fst two_squares)
   \<and> map_of (polygons_tiled_dict (-) two_squares) ''R0'' = Some unit_square
   \<and> map_of (polygons_tiled_dict (-) two_squares) ''R1'' = Some {}
   \<and> unit_square \<inter> {} = {}
   \<and> \<Union> (snd ` set (polygons_tiled_dict (-) two_squares)) = \<Union> (snd ` set two_squares)"
proof -
  have d: "distinct (map fst two_squares)"
    by (simp add: two_squares_def)
  have "map_of (polygons_tiled_dict (-) two_squares) ''R0'' = Some unit_square"
    and "map_of (polygons_tiled_dict (-) two_squares) ''R1'' = Some {}"
    by (simp_all add: two_squares_tiled)
  with d conjunct2 [OF resolved_layers_partition [OF d]] show ?thesis
    by simp
qed

section \<open>The registry\<close>

subsection \<open>Matching\<close>

lemma coord_equal_refl: "0 \<le> tol \<Longrightarrow> coord_equal p p tol"
  by (simp add: coord_equal_def)

lemma coord_equal_sym: "coord_equal p q tol = coord_equal q p tol"
  by (auto simp: coord_equal_def power2_commute)

text \<open>
  A line and the same line reversed are equal in this sense only when the two end points
  are within the tolerance of each other.
\<close>

lemma line_equals_exact_reversed:
  "line_equals_exact (a, b) (b, a) tol = coord_equal a b tol"
  by (auto simp: line_equals_exact_def coord_equal_sym [of b a])

text \<open>With a tolerance other than 0 the test is the one on the Euclidean distance.\<close>

lemma coord_equal_dist:
  assumes "tol \<noteq> 0"
  shows "coord_equal p q tol = (sqrt ((fst p - fst q)\<^sup>2 + (snd p - snd q)\<^sup>2) \<le> tol)"
proof (cases "0 \<le> tol")
  case True
  then have "sqrt (tol\<^sup>2) = tol"
    by simp
  then have "(sqrt ((fst p - fst q)\<^sup>2 + (snd p - snd q)\<^sup>2) \<le> tol)
      = ((fst p - fst q)\<^sup>2 + (snd p - snd q)\<^sup>2 \<le> tol\<^sup>2)"
    by (metis real_sqrt_le_iff)
  with True assms show ?thesis
    by (simp add: coord_equal_def)
next
  case False
  have "0 \<le> sqrt ((fst p - fst q)\<^sup>2 + (snd p - snd q)\<^sup>2)"
    by simp
  with False have "\<not> sqrt ((fst p - fst q)\<^sup>2 + (snd p - snd q)\<^sup>2) \<le> tol"
    by linarith
  with False assms show ?thesis
    by (simp add: coord_equal_def)
qed

lemma find_enumerate_None:
  "map_option fst (find (\<lambda>(i, q). P q) (List.enumerate n xs)) = None \<longleftrightarrow>
     (\<forall>j<length xs. \<not> P (xs ! j))"
proof -
  have "map_option fst (find (\<lambda>(i, q). P q) (List.enumerate n xs)) = None
          \<longleftrightarrow> (\<forall>q \<in> set xs. \<not> P q)"
    by (induction xs arbitrary: n) auto
  then show ?thesis
    by (simp add: all_set_conv_all_nth)
qed

lemma find_enumerate_Some:
  "map_option fst (find (\<lambda>(i, q). P q) (List.enumerate 0 xs)) = Some k \<longleftrightarrow>
     k < length xs \<and> P (xs ! k) \<and> (\<forall>j<k. \<not> P (xs ! j))"
proof -
  let ?Q = "\<lambda>(i :: nat, q). P q"
  let ?en = "List.enumerate 0 xs"
  have nth: "?en ! j = (j, xs ! j)" if "j < length xs" for j
    using that by (simp add: nth_enumerate_eq)
  show ?thesis
  proof
    assume "map_option fst (find ?Q ?en) = Some k"
    then obtain z where z: "find ?Q ?en = Some z" "fst z = k"
      by auto
    from z(1) have "\<exists>i<length ?en. ?Q (?en ! i) \<and> z = ?en ! i \<and> (\<forall>j<i. \<not> ?Q (?en ! j))"
      by (simp only: find_Some_iff)
    then obtain i where i: "i < length ?en" "?Q (?en ! i)" "z = ?en ! i"
      "\<forall>j<i. \<not> ?Q (?en ! j)"
      by (elim exE conjE)
    from i(1) have il: "i < length xs" by simp
    with i(3) z(2) have "k = i" by (simp add: nth)
    moreover from i(2) il have "P (xs ! i)" by (simp add: nth)
    moreover have "\<not> P (xs ! j)" if "j < i" for j
    proof -
      from that il have "j < length xs" by simp
      moreover from i(4) that have "\<not> ?Q (?en ! j)" by simp
    ultimately show ?thesis by (simp add: nth)
    qed
    ultimately show "k < length xs \<and> P (xs ! k) \<and> (\<forall>j<k. \<not> P (xs ! j))"
      using il by simp
  next
    assume r: "k < length xs \<and> P (xs ! k) \<and> (\<forall>j<k. \<not> P (xs ! j))"
    have "find ?Q ?en = Some (k, xs ! k)"
      unfolding find_Some_iff
    proof (intro exI [of _ k] conjI allI impI)
      show "k < length ?en" using r by simp
      show "?Q (?en ! k)" using r by (simp add: nth)
      show "(k, xs ! k) = ?en ! k" using r by (simp add: nth)
      fix j assume "j < k"
      with r have "j < length xs" "\<not> P (xs ! j)" by simp_all
      then show "\<not> ?Q (?en ! j)" by (simp add: nth)
    qed
    then show "map_option fst (find ?Q ?en) = Some k" by simp
  qed
qed

lemma get_point_index_Some:
  "get_point_index t p = Some k \<longleftrightarrow>
     k < length (shapely_points t)
     \<and> point_equals_exact p (shapely_points t ! k) (atol t)
     \<and> (\<forall>j<k. \<not> point_equals_exact p (shapely_points t ! j) (atol t))"
  unfolding get_point_index_def by (rule find_enumerate_Some)

lemma get_point_index_None:
  "get_point_index t p = None \<longleftrightarrow>
     (\<forall>j<length (shapely_points t). \<not> point_equals_exact p (shapely_points t ! j) (atol t))"
  unfolding get_point_index_def by (rule find_enumerate_None)


lemma add_get_point_hit:
  "get_point_index t p = Some k \<Longrightarrow> k < length (gmsh_points t) \<Longrightarrow>
   add_get_point p r t = Inr (gmsh_points t ! k, t)"
  by (simp add: add_get_point_def)

lemma add_get_point_miss:
  "get_point_index t p = None \<Longrightarrow>
   add_get_point p r t =
     Inr (Suc (length (points (model t))),
          t\<lparr>shapely_points := shapely_points t @ [p],
            gmsh_points := gmsh_points t @ [Suc (length (points (model t)))],
            model := (model t)\<lparr>points := points (model t) @ [(p, r)]\<rparr>\<rparr>)"
  by (simp add: add_get_point_def model_add_point_def split: option.split)

lemma add_get_point_cases:
  assumes "add_get_point p r t = Inr (g, t')"
  obtains (hit) k where "get_point_index t p = Some k" "k < length (gmsh_points t)"
      "g = gmsh_points t ! k" "t' = t"
    | (miss) "get_point_index t p = None" "g = Suc (length (points (model t)))"
      "t' = t\<lparr>shapely_points := shapely_points t @ [p],
               gmsh_points := gmsh_points t @ [g],
               model := (model t)\<lparr>points := points (model t) @ [(p, r)]\<rparr>\<rparr>"
proof (cases "get_point_index t p")
  case None
  with assms add_get_point_miss [OF None, of r] show ?thesis
    by (intro miss) auto
next
  case (Some k)
  with assms show ?thesis
    by (intro hit [of k]) (auto simp: add_get_point_def split: if_splits)
qed

lemma add_get_point_total:
  assumes "length (gmsh_points t) = length (shapely_points t)"
  shows "\<exists>g t'. add_get_point p r t = Inr (g, t')"
proof (cases "get_point_index t p")
  case None
  then show ?thesis by (simp add: add_get_point_miss)
next
  case (Some k)
  then have "k < length (gmsh_points t)"
    using assms by (simp add: get_point_index_Some)
  with Some show ?thesis by (simp add: add_get_point_hit)
qed

lemma add_get_point_frame:
  assumes "add_get_point p r t = Inr (g, t')"
  shows "atol t' = atol t" "shapely_xy_lines t' = shapely_xy_lines t"
    "gmsh_xy_lines t' = gmsh_xy_lines t" "lines (model t') = lines (model t)"
    "prefix (shapely_points t) (shapely_points t')" "prefix (gmsh_points t) (gmsh_points t')"
    "length (gmsh_points t) = length (shapely_points t)
       \<Longrightarrow> length (gmsh_points t') = length (shapely_points t')"
  using assms by (cases rule: add_get_point_cases; simp)+

lemma add_get_point_registered:
  assumes "add_get_point p r t = Inr (g, t')"
    and "length (gmsh_points t) = length (shapely_points t)" and "0 \<le> atol t"
  shows "\<exists>i. get_point_index t' p = Some i \<and> i < length (gmsh_points t')
             \<and> gmsh_points t' ! i = g"
  using assms(1)
proof (cases rule: add_get_point_cases)
  case (hit k)
  then show ?thesis by simp
next
  case miss
  have "get_point_index t' p = Some (length (shapely_points t))"
    unfolding get_point_index_Some using miss(1) assms(3)
    by (simp add: miss(3) get_point_index_None nth_append point_equals_exact_def coord_equal_refl)
  moreover have "gmsh_points t' ! length (shapely_points t) = g"
    using assms(2) by (simp add: miss(3) nth_append)
  moreover have "length (shapely_points t) < length (gmsh_points t')"
    using assms(2) by (simp add: miss(3))
  ultimately show ?thesis by blast
qed

lemma get_point_index_prefix:
  assumes "get_point_index t p = Some i"
    and "prefix (shapely_points t) (shapely_points t')" and "atol t' = atol t"
  shows "get_point_index t' p = Some i"
proof -
  from assms(2) obtain zs where zs: "shapely_points t' = shapely_points t @ zs"
    by (auto simp: prefix_def)
  from assms(1) have i: "i < length (shapely_points t)"
    by (simp add: get_point_index_Some)
  from assms(1) show ?thesis
    unfolding get_point_index_Some using i by (auto simp: zs assms(3) nth_append)
qed

lemma nth_prefix: "prefix xs ys \<Longrightarrow> i < length xs \<Longrightarrow> ys ! i = xs ! i"
  by (auto simp: prefix_def nth_append)

subsection \<open>Evaluation on the concrete registries\<close>

lemmas registry_defs = MeshTracker_def Geometry_def add_get_xy_line_def
  get_xy_line_index_and_orientation_def add_get_point_def get_point_index_def
  model_add_point_def model_add_line_def point_equals_exact_def line_equals_exact_def
  coord_equal_def boundary_geoms_def power2_eq_square

lemma tracker_AB_built:
  "add_get_xy_line (0, 0) (1, 0) tracker0 = Inr ((Line 1 1 2, PyInt 1), tracker_AB)"
  by (simp add: tracker0_def tracker_AB_def registry_defs)

lemma tracker_ABC_built:
  "add_get_xy_line (1, 0) (1, 1) tracker_AB = Inr ((Line 2 2 3, PyInt 1), tracker_ABC)"
  by (simp add: tracker_AB_def tracker_ABC_def registry_defs)

subsection \<open>Points\<close>

text \<open>
  Claim C5: in a registry whose point lists are in step, a point within tolerance of a
  registered point gets the handle of the earliest registered point that matches it,
  whatever resolution is passed, and the registry is returned unchanged. With a
  tolerance that is not negative, a second call with the same coordinates returns the
  handle of the first call and changes nothing.
\<close>

theorem add_get_point_existing:
  assumes "length (gmsh_points t) = length (shapely_points t)"
  shows "(\<forall>i<length (shapely_points t).
            point_equals_exact p (shapely_points t ! i) (atol t) \<longrightarrow>
            (\<exists>k\<le>i. point_equals_exact p (shapely_points t ! k) (atol t)
                 \<and> (\<forall>j<k. \<not> point_equals_exact p (shapely_points t ! j) (atol t))
                 \<and> (\<forall>resolution. add_get_point p resolution t = Inr (gmsh_points t ! k, t))))
       \<and> (0 \<le> atol t \<longrightarrow>
            (\<forall>r1 r2. \<exists>h t'. add_get_point p r1 t = Inr (h, t')
                          \<and> add_get_point p r2 t' = Inr (h, t')))"
proof (intro conjI allI impI)
  fix i
  assume i: "i < length (shapely_points t)"
    and m: "point_equals_exact p (shapely_points t ! i) (atol t)"
  then have "get_point_index t p \<noteq> None"
    by (auto simp: get_point_index_None)
  then obtain k where k: "get_point_index t p = Some k"
    by blast
  then have kp: "k < length (shapely_points t)"
    "point_equals_exact p (shapely_points t ! k) (atol t)"
    "\<forall>j<k. \<not> point_equals_exact p (shapely_points t ! j) (atol t)"
    by (simp_all add: get_point_index_Some)
  from kp(3) m have "k \<le> i"
    by (meson not_less)
  moreover from k kp(1) assms
  have "\<forall>resolution. add_get_point p resolution t = Inr (gmsh_points t ! k, t)"
    by (simp add: add_get_point_hit)
  ultimately show "\<exists>k\<le>i. point_equals_exact p (shapely_points t ! k) (atol t)
      \<and> (\<forall>j<k. \<not> point_equals_exact p (shapely_points t ! j) (atol t))
      \<and> (\<forall>resolution. add_get_point p resolution t = Inr (gmsh_points t ! k, t))"
    using kp(2,3) by blast
next
  fix r1 r2
  assume tol: "0 \<le> atol t"
  from add_get_point_total [OF assms] obtain h t' where
    first: "add_get_point p r1 t = Inr (h, t')" by blast
  from add_get_point_registered [OF first assms tol] obtain i where
    "get_point_index t' p = Some i" "i < length (gmsh_points t')" "gmsh_points t' ! i = h"
    by blast
  then have "add_get_point p r2 t' = Inr (h, t')"
    by (simp add: add_get_point_hit)
  with first show "\<exists>h t'. add_get_point p r1 t = Inr (h, t') \<and> add_get_point p r2 t' = Inr (h, t')"
    by blast
qed


theorem add_get_point_existing_witness:
  "length (gmsh_points tracker_AB) = length (shapely_points tracker_AB)
   \<and> point_equals_exact (1, 1 / 2000) (shapely_points tracker_AB ! 1) (atol tracker_AB)
   \<and> add_get_point (1, 1 / 2000) (Some (1 / 5)) tracker_AB = Inr (2, tracker_AB)
   \<and> add_get_point (1, 1 / 2000) None tracker_AB = Inr (2, tracker_AB)"
proof -
  have inv: "length (gmsh_points tracker_AB) = length (shapely_points tracker_AB)"
    by (simp add: tracker_AB_def)
  have m: "point_equals_exact (1, 1 / 2000) (shapely_points tracker_AB ! 1) (atol tracker_AB)"
    by (simp add: tracker_AB_def point_equals_exact_def coord_equal_def power2_eq_square)
  have far: "\<not> point_equals_exact (1, 1 / 2000) (shapely_points tracker_AB ! 0) (atol tracker_AB)"
    by (simp add: tracker_AB_def point_equals_exact_def coord_equal_def power2_eq_square)
  have len: "1 < length (shapely_points tracker_AB)"
    by (simp add: tracker_AB_def)
  from conjunct1 [OF add_get_point_existing [OF inv, of "(1, 1 / 2000)"]] len m
  obtain k where k: "k \<le> 1"
    "point_equals_exact (1, 1 / 2000) (shapely_points tracker_AB ! k) (atol tracker_AB)"
    "\<forall>resolution. add_get_point (1, 1 / 2000) resolution tracker_AB
        = Inr (gmsh_points tracker_AB ! k, tracker_AB)"
    by blast
  from k(1,2) far have "k = 1"
    by (cases "k = 0") auto
  with k(3) have "\<forall>resolution. add_get_point (1, 1 / 2000) resolution tracker_AB
        = Inr (2, tracker_AB)"
    by (simp add: tracker_AB_def)
  with inv m show ?thesis by simp
qed


subsection \<open>Segments\<close>

lemma scan_xy_lines_no_match:
  "\<forall>s \<in> set xs. \<not> line_equals_exact l s tol \<Longrightarrow>
   scan_xy_lines tol l (List.enumerate n xs) = Inr (None, PyInt 1)"
  by (induction xs arbitrary: n) auto

lemma scan_xy_lines_never_reversed:
  "scan_xy_lines tol l xs \<noteq> Inr (Some i, PyBool False)"
proof (induction xs)
  case Nil
  then show ?case by simp
next
  case (Cons x xs)
  obtain k s where x: "x = (k, s)" by (cases x)
  show ?case
  proof (cases "line_equals_exact l s tol")
    case False
    with Cons show ?thesis by (simp add: x)
  next
    case True
    then have "point_equals_exact (fst l) (fst s) tol"
      by (simp add: line_equals_exact_def point_equals_exact_def)
    with True show ?thesis
      by (simp add: x boundary_geoms_def)
  qed
qed

text \<open>
  Claim C3 asks that a query for (B, A) after registering (A, B) finds the registered
  segment and reports it reversed. The lookup compares the coordinates of the two lines
  in stored order, so the reversed query matches nothing: a second segment is
  registered and the orientation returned is \<^verbatim>\<open>1\<close>. By
  \<open>scan_xy_lines_never_reversed\<close> the branch that reports \<^verbatim>\<open>False\<close> is
  never taken.
\<close>

theorem reversed_query_registers_duplicate:
  "add_get_xy_line (0, 0) (1, 0) tracker0 = Inr ((Line 1 1 2, PyInt 1), tracker_AB)
   \<and> add_get_xy_line (1, 0) (0, 0) tracker_AB = Inr ((Line 2 2 1, PyInt 1), tracker_ABBA)
   \<and> length (shapely_xy_lines tracker_AB) = 1
   \<and> length (shapely_xy_lines tracker_ABBA) = 2"
  by (simp add: tracker0_def tracker_AB_def tracker_ABBA_def registry_defs)

lemma line_tags_known_initial: "line_tags_known (MeshTracker m tol)"
  by (simp add: line_tags_known_def MeshTracker_def)

lemma add_get_point_line_tags:
  assumes "add_get_point p r t = Inr (g, t')" and "line_tags_known t"
  shows "line_tags_known t'"
  using add_get_point_frame [OF assms(1)] assms(2) by (simp add: line_tags_known_def)

lemma degenerate_segment_eval:
  "add_get_xy_line (1, 0) (1, 1 / 2000) tracker_AB = Inl GmshError"
  by (simp add: tracker_AB_def registry_defs)

text \<open>
  Claim C8, as stated: every pair of points whose segment is not in the registry gets a
  new segment. In the registry that holds the segment from \<open>(0, 0)\<close> to \<open>(1, 0)\<close>
  no segment matches the one from \<open>(1, 0)\<close> to \<open>(1, 1/2000)\<close>, but both of its
  end points are within the tolerance of the registered point \<open>(1, 0)\<close>, the model is
  asked for a line from that point to itself, and the call fails.
\<close>

theorem degenerate_segment_counterexample:
  "shapely_xy_lines tracker_AB = [((0, 0), (1, 0))]
   \<and> \<not> line_equals_exact ((1, 0), (1, 1 / 2000)) ((0, 0), (1, 0)) (atol tracker_AB)
   \<and> add_get_xy_line (1, 0) (1, 1 / 2000) tracker_AB = Inl GmshError"
proof -
  have "shapely_xy_lines tracker_AB = [((0, 0), (1, 0))]"
    by (simp add: tracker_AB_def)
  moreover have "\<not> line_equals_exact ((1, 0), (1, 1 / 2000)) ((0, 0), (1, 0)) (atol tracker_AB)"
    by (simp add: tracker_AB_def registry_defs)
  ultimately show ?thesis
    using degenerate_segment_eval by (intro conjI)
qed

text \<open>
  Claim C8, amended: when no registered segment matches the query, both end points are
  registered (the first, then the second, without resolution). If they resolve to one
  and the same model point the model refuses the line and the call fails. Otherwise the
  model creates a line between the two handles with the next free tag, which no segment
  of the registry has, the segment is stored in query order, and the new line is
  returned with orientation \<^verbatim>\<open>1\<close>, which is true in a condition.
\<close>

theorem add_get_xy_line_new:
  assumes "length (gmsh_points t) = length (shapely_points t)" and "0 \<le> atol t"
    and "line_tags_known t"
    and "\<forall>s \<in> set (shapely_xy_lines t). \<not> line_equals_exact (p1, p2) s (atol t)"
  shows "\<exists>g1 t1 g2 t2.
           add_get_point p1 None t = Inr (g1, t1)
         \<and> add_get_point p2 None t1 = Inr (g2, t2)
         \<and> (if g1 = g2 then add_get_xy_line p1 p2 t = Inl GmshError
            else (\<exists>gmsh_line t'.
                add_get_xy_line p1 p2 t = Inr ((gmsh_line, PyInt 1), t')
              \<and> truthy (PyInt 1)
              \<and> gmsh_line = Line (int (length (lines (model t))) + 1) g1 g2
              \<and> gmsh_line \<notin> set (gmsh_xy_lines t)
              \<and> shapely_xy_lines t' = shapely_xy_lines t @ [(p1, p2)]
              \<and> gmsh_xy_lines t' = gmsh_xy_lines t @ [gmsh_line]
              \<and> lines (model t') = lines (model t) @ [(g1, g2)]
              \<and> shapely_points t' = shapely_points t2 \<and> gmsh_points t' = gmsh_points t2
              \<and> line_tags_known t'
              \<and> (\<exists>i. get_point_index t' p1 = Some i \<and> gmsh_points t' ! i = g1)
              \<and> (\<exists>j. get_point_index t' p2 = Some j \<and> gmsh_points t' ! j = g2)))"
proof -
  have lookup: "get_xy_line_index_and_orientation t p1 p2 = Inr (None, PyInt 1)"
    unfolding get_xy_line_index_and_orientation_def
    using assms(4) by (rule scan_xy_lines_no_match)
  from add_get_point_total [OF assms(1)] obtain g1 t1 where
    a1: "add_get_point p1 None t = Inr (g1, t1)" by blast
  note f1 = add_get_point_frame [OF a1]
  have inv1: "length (gmsh_points t1) = length (shapely_points t1)"
    using f1(7) assms(1) by simp
  from add_get_point_total [OF inv1] obtain g2 t2 where
    a2: "add_get_point p2 None t1 = Inr (g2, t2)" by blast
  note f2 = add_get_point_frame [OF a2]
  show ?thesis
  proof (cases "g1 = g2")
    case True
    then have "add_get_xy_line p1 p2 t = Inl GmshError"
      by (simp add: add_get_xy_line_def lookup a1 a2 model_add_line_def)
    with a1 a2 True show ?thesis by auto
  next
    case False
    define gmsh_line where "gmsh_line = Line (int (length (lines (model t))) + 1) g1 g2"
    define t' where "t' = t2\<lparr>shapely_xy_lines := shapely_xy_lines t2 @ [(p1, p2)],
        gmsh_xy_lines := gmsh_xy_lines t2 @ [gmsh_line],
        model := (model t2)\<lparr>lines := lines (model t2) @ [(g1, g2)]\<rparr>\<rparr>"
    have res: "add_get_xy_line p1 p2 t = Inr ((gmsh_line, PyInt 1), t')"
      using False
      by (simp add: add_get_xy_line_def lookup a1 a2 model_add_line_def gmsh_line_def t'_def
          f1(4) f2(4))
    from add_get_point_registered [OF a1 assms(1,2)] obtain i where
      i: "get_point_index t1 p1 = Some i" "i < length (gmsh_points t1)" "gmsh_points t1 ! i = g1"
      by blast
    have i2: "get_point_index t2 p1 = Some i"
      using i(1) f2(5) f2(1) by (rule get_point_index_prefix)
    have g1: "gmsh_points t2 ! i = g1"
      using nth_prefix [OF f2(6) i(2)] i(3) by simp
    have tol1: "0 \<le> atol t1"
      using assms(2) f1(1) by simp
    from add_get_point_registered [OF a2 inv1 tol1] obtain j where
      j: "get_point_index t2 p2 = Some j" "gmsh_points t2 ! j = g2"
      by blast
    have same: "get_point_index t' q = get_point_index t2 q" for q
      by (simp add: get_point_index_def t'_def)
    have known: "list_all (\<lambda>l. line_id l \<le> int (length (lines (model t)))) (gmsh_xy_lines t)"
      using assms(3) by (simp add: line_tags_known_def)
    have fresh: "gmsh_line \<notin> set (gmsh_xy_lines t)"
    proof
      assume "gmsh_line \<in> set (gmsh_xy_lines t)"
      with known have "line_id gmsh_line \<le> int (length (lines (model t)))"
        by (simp add: list_all_iff)
      then show False by (simp add: gmsh_line_def)
    qed
    have known': "line_tags_known t'"
      using known
      by (simp add: line_tags_known_def t'_def f1 f2 gmsh_line_def list_all_iff) fastforce
    have r1: "\<exists>i. get_point_index t' p1 = Some i \<and> gmsh_points t' ! i = g1"
      using i2 g1 by (simp add: same) (simp add: t'_def)
    have r2: "\<exists>j. get_point_index t' p2 = Some j \<and> gmsh_points t' ! j = g2"
      using j by (simp add: same) (simp add: t'_def)
    have upd: "shapely_xy_lines t' = shapely_xy_lines t @ [(p1, p2)]"
      "gmsh_xy_lines t' = gmsh_xy_lines t @ [gmsh_line]"
      "lines (model t') = lines (model t) @ [(g1, g2)]"
      "shapely_points t' = shapely_points t2" "gmsh_points t' = gmsh_points t2"
      by (simp_all add: t'_def f1 f2)
    have "\<exists>gmsh_line t'.
                add_get_xy_line p1 p2 t = Inr ((gmsh_line, PyInt 1), t')
              \<and> truthy (PyInt 1)
              \<and> gmsh_line = Line (int (length (lines (model t))) + 1) g1 g2
              \<and> gmsh_line \<notin> set (gmsh_xy_lines t)
              \<and> shapely_xy_lines t' = shapely_xy_lines t @ [(p1, p2)]
              \<and> gmsh_xy_lines t' = gmsh_xy_lines t @ [gmsh_line]
              \<and> lines (model t') = lines (model t) @ [(g1, g2)]
              \<and> shapely_points t' = shapely_points t2 \<and> gmsh_points t' = gmsh_points t2
              \<and> line_tags_known t'
              \<and> (\<exists>i. get_point_index t' p1 = Some i \<and> gmsh_points t' ! i = g1)
              \<and> (\<exists>j. get_point_index t' p2 = Some j \<and> gmsh_points t' ! j = g2)"
      using res fresh known' r1 r2 upd gmsh_line_def
      by (intro exI [of _ gmsh_line] exI [of _ t']) simp
    with a1 a2 False show ?thesis by auto
  qed
qed

theorem add_get_xy_line_new_witness:
  "length (gmsh_points tracker_AB) = length (shapely_points tracker_AB)
   \<and> 0 \<le> atol tracker_AB
   \<and> line_tags_known tracker_AB
   \<and> shapely_xy_lines tracker_AB = [((0, 0), (1, 0))]
   \<and> \<not> line_equals_exact ((1, 0), (1, 1)) ((0, 0), (1, 0)) (atol tracker_AB)
   \<and> add_get_xy_line (1, 0) (1, 1) tracker_AB = Inr ((Line 2 2 3, PyInt 1), tracker_ABC)
   \<and> Line 2 2 3 \<notin> set (gmsh_xy_lines tracker_AB)"
proof -
  have inv: "length (gmsh_points tracker_AB) = length (shapely_points tracker_AB)"
    and tol: "0 \<le> atol tracker_AB"
    and ls: "shapely_xy_lines tracker_AB = [((0, 0), (1, 0))]"
    and known: "line_tags_known tracker_AB"
    and fresh: "Line 2 2 3 \<notin> set (gmsh_xy_lines tracker_AB)"
    by (simp_all add: tracker_AB_def line_tags_known_def)
  have far: "\<not> line_equals_exact ((1, 0), (1, 1)) ((0, 0), (1, 0)) (atol tracker_AB)"
    by (simp add: tracker_AB_def registry_defs)
  then have new: "\<forall>s \<in> set (shapely_xy_lines tracker_AB).
      \<not> line_equals_exact ((1, 0), (1, 1)) s (atol tracker_AB)"
    by (simp add: ls)
  from add_get_xy_line_new [OF inv tol known new] inv tol known ls far fresh tracker_ABC_built
  show ?thesis by simp
qed

subsection \<open>Growth\<close>

lemma registry_grows_refl: "registry_grows t t"
  by (simp add: registry_grows_def)

lemma registry_grows_trans:
  "registry_grows t t1 \<Longrightarrow> registry_grows t1 t2 \<Longrightarrow> registry_grows t t2"
  unfolding registry_grows_def by (meson prefix_order.trans)

lemma registry_model_update:
  "registry_grows t (t'\<lparr>model := m\<rparr>) = registry_grows t t'"
  "registry_inv (t'\<lparr>model := m\<rparr>) = registry_inv t'"
  by (simp_all add: registry_grows_def registry_inv_def)

lemma add_get_point_grows:
  assumes "add_get_point p r t = Inr (g, t')" and "registry_inv t"
  shows "registry_grows t t' \<and> registry_inv t'"
  using add_get_point_frame [OF assms(1)] assms(2)
  by (simp add: registry_grows_def registry_inv_def)

lemma add_get_xy_line_grows:
  assumes "add_get_xy_line p1 p2 t = Inr (res, t')" and "registry_inv t"
  shows "registry_grows t t' \<and> registry_inv t'"
proof (cases "get_xy_line_index_and_orientation t p1 p2")
  case (Inl e)
  with assms(1) show ?thesis by (simp add: add_get_xy_line_def)
next
  case (Inr found)
  obtain index orientation where found: "found = (index, orientation)" by (cases found)
  show ?thesis
  proof (cases index)
    case (Some i)
    with assms Inr found have "t' = t"
      by (simp add: add_get_xy_line_def split: if_splits)
    with assms(2) show ?thesis by (simp add: registry_grows_refl)
  next
    case None
    from assms(1) Inr found None obtain g1 t1 g2 t2 gl m where
      a1: "add_get_point p1 None t = Inr (g1, t1)"
      and a2: "add_get_point p2 None t1 = Inr (g2, t2)"
      and t': "t' = t2\<lparr>shapely_xy_lines := shapely_xy_lines t2 @ [(p1, p2)],
          gmsh_xy_lines := gmsh_xy_lines t2 @ [gl],
          model := m\<rparr>"
      by (auto simp: add_get_xy_line_def split: sum.splits prod.splits)
    from add_get_point_grows [OF a1 assms(2)] have 1: "registry_grows t t1" "registry_inv t1"
      by simp_all
    from add_get_point_grows [OF a2 1(2)] have 2: "registry_grows t1 t2" "registry_inv t2"
      by simp_all
    have "registry_grows t2 t'" "registry_inv t'"
      using 2(2) by (simp_all add: t' registry_grows_def registry_inv_def)
    with 1(1) 2(1) show ?thesis
      by (meson registry_grows_trans)
  qed
qed

lemma loop_edges_grows:
  "loop_edges ps edges t = Inr (es, t') \<Longrightarrow> registry_inv t \<Longrightarrow>
   registry_grows t t' \<and> registry_inv t'"
proof (induction ps arbitrary: edges t)
  case Nil
  then show ?case by (simp add: registry_grows_refl)
next
  case (Cons a ps)
  obtain v1 v2 where a: "a = (v1, v2)" by (cases a)
  from Cons.prems(1) obtain gl orientation t1 edges1 where
    step: "add_get_xy_line v1 v2 t = Inr ((gl, orientation), t1)"
    and rest: "loop_edges ps edges1 t1 = Inr (es, t')"
    by (auto simp: a split: sum.splits if_splits)
  from add_get_xy_line_grows [OF step Cons.prems(2)]
  have 1: "registry_grows t t1" "registry_inv t1" by simp_all
  from Cons.IH [OF rest 1(2)] 1(1) show ?case
    by (meson registry_grows_trans)
qed

lemma xy_channel_loop_grows:
  assumes "xy_channel_loop_from_vertices vs t = Inr (l, t')" and "registry_inv t"
  shows "registry_grows t t' \<and> registry_inv t'"
proof -
  from assms(1) obtain es t1 m where
    e: "loop_edges (map (\<lambda>i. (vs ! i, vs ! (i + 1))) [0 ..< length vs - 1]) [] t = Inr (es, t1)"
    and t': "t' = t1\<lparr>model := m\<rparr>"
    by (auto simp: xy_channel_loop_from_vertices_def split: sum.splits)
  from loop_edges_grows [OF e assms(2)] show ?thesis
    by (simp add: t' registry_model_update)
qed

lemma register_vertices_grows:
  "register_vertices vs r acc t = Inr (out, t') \<Longrightarrow> registry_inv t \<Longrightarrow>
   registry_grows t t' \<and> registry_inv t'"
proof (induction vs arbitrary: acc t)
  case Nil
  then show ?case by (simp add: registry_grows_refl)
next
  case (Cons v vs)
  from Cons.prems(1) obtain g t1 where
    step: "add_get_point v r t = Inr (g, t1)"
    and rest: "register_vertices vs r (acc @ [v]) t1 = Inr (out, t')"
    by (auto split: sum.splits)
  from add_get_point_grows [OF step Cons.prems(2)]
  have 1: "registry_grows t t1" "registry_inv t1" by simp_all
  from Cons.IH [OF rest 1(2)] 1(1) show ?case
    by (meson registry_grows_trans)
qed

lemma parse_holes_grows:
  "parse_holes hs r loops t = Inr (out, t') \<Longrightarrow> registry_inv t \<Longrightarrow>
   registry_grows t t' \<and> registry_inv t'"
proof (induction hs arbitrary: loops t)
  case Nil
  then show ?case by (simp add: registry_grows_refl)
next
  case (Cons h hs)
  from Cons.prems(1) obtain vs t1 l t2 where
    reg: "register_vertices h r [] t = Inr (vs, t1)"
    and lp: "xy_channel_loop_from_vertices vs t1 = Inr (l, t2)"
    and rest: "parse_holes hs r (loops @ [l]) t2 = Inr (out, t')"
    by (auto split: sum.splits)
  from register_vertices_grows [OF reg Cons.prems(2)]
  have 1: "registry_grows t t1" "registry_inv t1" by simp_all
  from xy_channel_loop_grows [OF lp 1(2)]
  have 2: "registry_grows t1 t2" "registry_inv t2" by simp_all
  from Cons.IH [OF rest 2(2)] 1(1) 2(1) show ?case
    by (meson registry_grows_trans)
qed

lemma add_xy_surface_grows:
  assumes "add_xy_surface g r t = Inr (s, t')" and "registry_inv t"
  shows "registry_grows t t' \<and> registry_inv t'"
proof (cases g)
  case (MultiPolygon parts)
  with assms(1) show ?thesis by simp
next
  case (Polygon ext holes)
  from assms(1) obtain hl t1 vs t2 l t3 m where
    ph: "parse_holes holes r [] t = Inr (hl, t1)"
    and reg: "register_vertices ext r [] t1 = Inr (vs, t2)"
    and lp: "xy_channel_loop_from_vertices vs t2 = Inr (l, t3)"
    and t': "t' = t3\<lparr>model := m\<rparr>"
    by (auto simp: Polygon split: sum.splits prod.splits)
  from parse_holes_grows [OF ph assms(2)]
  have 1: "registry_grows t t1" "registry_inv t1" by simp_all
  from register_vertices_grows [OF reg 1(2)]
  have 2: "registry_grows t1 t2" "registry_inv t2" by simp_all
  from xy_channel_loop_grows [OF lp 2(2)]
  have 3: "registry_grows t2 t3" "registry_inv t3" by simp_all
  from 1(1) 2(1) 3 show ?thesis
    by (simp add: t' registry_model_update) (meson registry_grows_trans)
qed

lemma registry_inv_initial: "registry_inv (MeshTracker m tol)"
  by (simp add: registry_inv_def MeshTracker_def)

lemma add_surfaces_grows:
  "add_surfaces resolutions layers t = Inr t' \<Longrightarrow> registry_inv t \<Longrightarrow>
   registry_grows t t' \<and> registry_inv t'"
proof (induction layers arbitrary: t)
  case Nil
  then show ?case by (simp add: registry_grows_refl)
next
  case (Cons a layers)
  obtain n g where a: "a = (n, g)" by (cases a)
  from Cons.prems(1) obtain r s t1 m where
    surf: "add_xy_surface g r t = Inr (s, t1)"
    and rest: "add_surfaces resolutions layers (t1\<lparr>model := m\<rparr>) = Inr t'"
    by (auto simp: a split: sum.splits)
  from add_xy_surface_grows [OF surf Cons.prems(2)]
  have 1: "registry_grows t (t1\<lparr>model := m\<rparr>)" "registry_inv (t1\<lparr>model := m\<rparr>)"
    by (simp_all add: registry_model_update)
  from Cons.IH [OF rest 1(2)] 1(1) show ?case
    by (meson registry_grows_trans)
qed

text \<open>
  Claim C9: the parallel lists of a new registry have equal lengths, and from a registry
  whose parallel lists have equal lengths every operation that returns (registering a
  point or a segment, building a loop, adding a surface, adding all surfaces of a build)
  leaves a registry that extends the old point and segment lists at the end and whose
  parallel lists again have equal lengths.
\<close>

theorem registry_only_grows:
  assumes "registry_inv t"
  shows "registry_inv (MeshTracker m tol)
       \<and> (\<forall>p r h t'. add_get_point p r t = Inr (h, t') \<longrightarrow> registry_grows t t' \<and> registry_inv t')
       \<and> (\<forall>p1 p2 res t'. add_get_xy_line p1 p2 t = Inr (res, t')
             \<longrightarrow> registry_grows t t' \<and> registry_inv t')
       \<and> (\<forall>vertices l t'. xy_channel_loop_from_vertices vertices t = Inr (l, t')
             \<longrightarrow> registry_grows t t' \<and> registry_inv t')
       \<and> (\<forall>polygon r s t'. add_xy_surface polygon r t = Inr (s, t')
             \<longrightarrow> registry_grows t t' \<and> registry_inv t')
       \<and> (\<forall>resolutions layers t'. add_surfaces resolutions layers t = Inr t'
             \<longrightarrow> registry_grows t t' \<and> registry_inv t')"
proof -
  have 1: "\<forall>p r h t'. add_get_point p r t = Inr (h, t')
      \<longrightarrow> registry_grows t t' \<and> registry_inv t'"
    using assms add_get_point_grows by blast
  have 2: "\<forall>p1 p2 res t'. add_get_xy_line p1 p2 t = Inr (res, t')
      \<longrightarrow> registry_grows t t' \<and> registry_inv t'"
    using assms add_get_xy_line_grows by blast
  have 3: "\<forall>vertices l t'. xy_channel_loop_from_vertices vertices t = Inr (l, t')
      \<longrightarrow> registry_grows t t' \<and> registry_inv t'"
    using assms xy_channel_loop_grows by blast
  have 4: "\<forall>polygon r s t'. add_xy_surface polygon r t = Inr (s, t')
      \<longrightarrow> registry_grows t t' \<and> registry_inv t'"
    using assms add_xy_surface_grows by blast
  have 5: "\<forall>resolutions layers t'. add_surfaces resolutions layers t = Inr t'
      \<longrightarrow> registry_grows t t' \<and> registry_inv t'"
    using assms add_surfaces_grows by blast
  show ?thesis
    by (intro conjI registry_inv_initial 1 2 3 4 5)
qed

theorem registry_only_grows_witness:
  "registry_inv tracker_AB
   \<and> add_get_xy_line (1, 0) (1, 1) tracker_AB = Inr ((Line 2 2 3, PyInt 1), tracker_ABC)
   \<and> registry_grows tracker_AB tracker_ABC \<and> registry_inv tracker_ABC"
proof -
  have inv: "registry_inv tracker_AB"
    by (simp add: registry_inv_def tracker_AB_def)
  from registry_only_grows [OF inv] tracker_ABC_built inv show ?thesis
    by blast
qed

section \<open>Loops and surfaces\<close>

lemmas assembly_defs = xy_channel_loop_from_vertices_def model_add_curve_loop_def
  model_add_plane_surface_def model_add_physical_def resolution_of_def no_resolutions_def
  square_ring_def far_ring_def neg_def

lemma loop_empty_fails: "length vs \<le> 1 \<Longrightarrow> xy_channel_loop_from_vertices vs t = Inl IndexError"
  by (simp add: xy_channel_loop_from_vertices_def model_add_curve_loop_def)

text \<open>
  Claim C4, as stated: a vertex sequence with fewer than three distinct vertices makes the
  loop builder fail. The ring from \<open>(0, 0)\<close> to \<open>(1, 0)\<close> and back has two distinct
  vertices, and the loop builder returns loop 1 for it.
\<close>

theorem degenerate_ring_counterexample:
  "length (remdups [(0, 0), (1, 0), (0, 0 :: real)]) < 3
   \<and> map_sum id fst (xy_channel_loop_from_vertices [(0, 0), (1, 0), (0, 0)] tracker0) = Inr 1"
  by (simp add: tracker0_def registry_defs assembly_defs upt_rec)

text \<open>
  Claim C4, amended: the loop builder counts no vertices and has no error of its own. A
  sequence of fewer than two vertices gives no edge, and the model rejects the empty
  curve loop with \<^verbatim>\<open>IndexError\<close>; the ring A, B, A of two vertices that are not
  within a tolerance \<open>tol \<ge> 0\<close> of each other, built on a fresh registry, registers
  the two points and gives a curve loop of two edges.
\<close>

theorem degenerate_ring_builds_loop:
  "(length vertices \<le> 1 \<longrightarrow> xy_channel_loop_from_vertices vertices self = Inl IndexError)
   \<and> (0 \<le> tol \<and> \<not> coord_equal A B tol \<longrightarrow>
        (\<exists>self'. xy_channel_loop_from_vertices [A, B, A] (MeshTracker Geometry tol) = Inr (1, self')
           \<and> shapely_points self' = [A, B]
           \<and> map length (curve_loops (model self')) = [2]))"
proof (intro conjI impI)
  assume "length vertices \<le> 1"
  then show "xy_channel_loop_from_vertices vertices self = Inl IndexError"
    by (rule loop_empty_fails)
next
  assume a: "0 \<le> tol \<and> \<not> coord_equal A B tol"
  then have refl: "coord_equal A A tol" "coord_equal B B tol"
    by (simp_all add: coord_equal_refl)
  from a have ne: "\<not> coord_equal A B tol" "\<not> coord_equal B A tol"
    by (simp_all add: coord_equal_sym [of B A])
  have up: "[0 ..< 2] = [0, 1]"
    by (simp add: upt_rec)
  show "\<exists>self'. xy_channel_loop_from_vertices [A, B, A] (MeshTracker Geometry tol) = Inr (1, self')
           \<and> shapely_points self' = [A, B]
           \<and> map length (curve_loops (model self')) = [2]"
    by (simp add: xy_channel_loop_from_vertices_def model_add_curve_loop_def up
        MeshTracker_def Geometry_def add_get_xy_line_def
        get_xy_line_index_and_orientation_def add_get_point_def get_point_index_def
        model_add_point_def model_add_line_def point_equals_exact_def line_equals_exact_def
        refl ne)
qed

theorem degenerate_ring_builds_loop_witness:
  "length [(0, 0 :: real)] \<le> 1
   \<and> xy_channel_loop_from_vertices [(0, 0)] tracker0 = Inl IndexError
   \<and> (0 :: real) \<le> 1 / 1000 \<and> \<not> coord_equal (0, 0) (1, 0) (1 / 1000)
   \<and> (\<exists>self'. xy_channel_loop_from_vertices [(0, 0), (1, 0), (0, 0)] (MeshTracker Geometry (1 / 1000))
         = Inr (1, self')
       \<and> shapely_points self' = [(0, 0), (1, 0)]
       \<and> map length (curve_loops (model self')) = [2])"
proof -
  have far: "\<not> coord_equal (0, 0) (1, 0) (1 / 1000)"
    by (simp add: coord_equal_def power2_eq_square)
  have tol: "(0 :: real) \<le> 1 / 1000"
    by simp
  note t = degenerate_ring_builds_loop [of "[(0, 0)]" tracker0 "1 / 1000" "(0, 0)" "(1, 0)"]
  from conjunct1 [OF t] have "xy_channel_loop_from_vertices [(0, 0)] tracker0 = Inl IndexError"
    by simp
  moreover from conjunct2 [OF t] far tol
  have "\<exists>self'. xy_channel_loop_from_vertices [(0, 0), (1, 0), (0, 0)] (MeshTracker Geometry (1 / 1000))
         = Inr (1, self')
       \<and> shapely_points self' = [(0, 0), (1, 0)]
       \<and> map length (curve_loops (model self')) = [2]"
    by blast
  ultimately show ?thesis
    using far tol by simp
qed

lemma add_xy_surface_empty:
  assumes "is_empty g"
  shows "\<exists>e. add_xy_surface g r t = Inl e"
proof (cases g)
  case (MultiPolygon parts)
  then show ?thesis by simp
next
  case (Polygon ext holes)
  with assms have ext: "ext = []" by simp
  show ?thesis
  proof (cases "parse_holes holes r [] t")
    case (Inl e)
    then show ?thesis by (simp add: Polygon)
  next
    case (Inr res)
    obtain hole_loops t1 where "res = (hole_loops, t1)" by (cases res)
    with Inr show ?thesis
      by (simp add: Polygon ext loop_empty_fails)
  qed
qed

lemma add_surfaces_abort:
  assumes "(n, g) \<in> set layers" and "\<And>r t. \<exists>e. add_xy_surface g r t = Inl e"
  shows "\<exists>e. add_surfaces resolutions layers t = Inl e"
  using assms(1)
proof (induction layers arbitrary: t)
  case Nil
  then show ?case by simp
next
  case (Cons a layers)
  obtain n' g' where a: "a = (n', g')" by (cases a)
  show ?case
  proof (cases "a = (n, g)")
    case True
    with a have same: "n' = n" "g' = g" by simp_all
    show ?thesis
    proof (cases "resolution_of resolutions n")
      case (Inl e)
      then show ?thesis by (simp add: a same)
    next
      case (Inr resolution)
      from assms(2) obtain e where "add_xy_surface g resolution t = Inl e"
        by blast
      with Inr show ?thesis by (simp add: a same)
    qed
  next
    case False
    with Cons.prems have "(n, g) \<in> set layers" by simp
    from Cons.IH [OF this] show ?thesis
      by (auto simp: a split: sum.splits)
  qed
qed

lemma eclipsed_layers_eval:
  "add_surfaces (Some no_resolutions) [(''R0'', Polygon square_ring []), (''R1'', Polygon [] [])] tracker0
     = Inl IndexError"
  by (simp add: tracker0_def registry_defs assembly_defs)

text \<open>
  Claim C2, as stated: a region whose resolved layer is empty is skipped without an error
  and the build goes on. With R1 equal to R0 the layer of the later region R1 is empty;
  the assembly adds the surface of R0 and then fails on R1.
\<close>

theorem eclipsed_layer_counterexample:
  "is_empty (Polygon [] [])
   \<and> add_surfaces (Some no_resolutions)
        [(''R0'', Polygon square_ring []), (''R1'', Polygon [] [])] tracker0 = Inl IndexError"
proof -
  have "is_empty (Polygon [] [])"
    by simp
  with eclipsed_layers_eval show ?thesis
    by (intro conjI)
qed

lemma add_surfaces_append:
  "add_surfaces resolutions (xs @ ys) t =
     (case add_surfaces resolutions xs t of
        Inl e \<Rightarrow> Inl e
      | Inr t1 \<Rightarrow> add_surfaces resolutions ys t1)"
  by (induction xs arbitrary: t) (auto split: sum.splits)

text \<open>
  Claim C2, amended: the surface assembly skips no region. A resolved layer that is empty
  is handed to \<^verbatim>\<open>add_xy_surface\<close> like every other one, and the call raises:
  \<^verbatim>\<open>IndexError\<close> for the empty polygon, whose exterior gives a loop of no edge that
  the model rejects, \<^verbatim>\<open>AttributeError\<close> for an empty multi-part geometry. A build
  that holds such a layer ends with an error; when the regions before the layer were
  added and its resolution was looked up, it ends with the error of
  \<^verbatim>\<open>add_xy_surface\<close> on that layer, whatever regions come after it. The build returns
  no model: no surface for the region, none for the regions after it.
\<close>

theorem empty_layer_aborts_build:
  assumes "is_empty polygon"
  shows "(\<exists>e. add_xy_surface polygon resolution self = Inl e)
       \<and> (polygon = Polygon [] []
            \<longrightarrow> add_xy_surface polygon resolution self = Inl IndexError)
       \<and> (\<forall>parts. polygon = MultiPolygon parts
            \<longrightarrow> add_xy_surface polygon resolution self = Inl AttributeError)
       \<and> (\<exists>e. add_surfaces resolutions (before @ (polygon_name, polygon) # after) meshtracker
              = Inl e)
       \<and> (\<forall>t1 r. add_surfaces resolutions before meshtracker = Inr t1
               \<and> resolution_of resolutions polygon_name = Inr r
            \<longrightarrow> (\<exists>e. add_xy_surface polygon r t1 = Inl e
                  \<and> add_surfaces resolutions (before @ (polygon_name, polygon) # after)
                        meshtracker = Inl e))"
proof (intro conjI allI impI)
  show "\<exists>e. add_xy_surface polygon resolution self = Inl e"
    by (rule add_xy_surface_empty [OF assms])
next
  assume "polygon = Polygon [] []"
  then show "add_xy_surface polygon resolution self = Inl IndexError"
    by (simp add: loop_empty_fails)
next
  fix parts
  assume "polygon = MultiPolygon parts"
  then show "add_xy_surface polygon resolution self = Inl AttributeError"
    by simp
next
  have "(polygon_name, polygon) \<in> set (before @ (polygon_name, polygon) # after)"
    by simp
  then show "\<exists>e. add_surfaces resolutions (before @ (polygon_name, polygon) # after) meshtracker
      = Inl e"
    by (rule add_surfaces_abort) (rule add_xy_surface_empty [OF assms])
next
  fix t1 r
  assume b: "add_surfaces resolutions before meshtracker = Inr t1
      \<and> resolution_of resolutions polygon_name = Inr r"
  from add_xy_surface_empty [OF assms] obtain e where e: "add_xy_surface polygon r t1 = Inl e"
    by blast
  with b have "add_surfaces resolutions (before @ (polygon_name, polygon) # after) meshtracker
      = Inl e"
    by (simp add: add_surfaces_append)
  with e show "\<exists>e. add_xy_surface polygon r t1 = Inl e
      \<and> add_surfaces resolutions (before @ (polygon_name, polygon) # after) meshtracker = Inl e"
    by blast
qed

lemma first_square_added:
  "\<exists>t1. add_surfaces (Some no_resolutions) [(''R0'', Polygon square_ring [])] tracker0 = Inr t1"
  by (simp add: tracker0_def registry_defs assembly_defs)

theorem empty_layer_aborts_build_witness:
  "is_empty (Polygon [] [])
   \<and> (\<exists>t1. add_surfaces (Some no_resolutions) [(''R0'', Polygon square_ring [])] tracker0 = Inr t1)
   \<and> resolution_of (Some no_resolutions) ''R1'' = Inr None
   \<and> add_surfaces (Some no_resolutions)
        ([(''R0'', Polygon square_ring [])] @ (''R1'', Polygon [] [])
           # [(''R2'', Polygon far_ring [])]) tracker0 = Inl IndexError"
proof -
  have e: "is_empty (Polygon [] [])"
    by simp
  have r: "resolution_of (Some no_resolutions) ''R1'' = Inr None"
    by (simp add: resolution_of_def no_resolutions_def)
  from first_square_added obtain t1 where
    t1: "add_surfaces (Some no_resolutions) [(''R0'', Polygon square_ring [])] tracker0 = Inr t1"
    by blast
  note t = empty_layer_aborts_build [OF e, of None t1 "Some no_resolutions"
      "[(''R0'', Polygon square_ring [])]" "''R1''" "[(''R2'', Polygon far_ring [])]" tracker0]
  from t have ix: "add_xy_surface (Polygon [] []) None t1 = Inl IndexError"
    by blast
  from t t1 r obtain err where "add_xy_surface (Polygon [] []) None t1 = Inl err"
    and "add_surfaces (Some no_resolutions)
        ([(''R0'', Polygon square_ring [])] @ (''R1'', Polygon [] [])
           # [(''R2'', Polygon far_ring [])]) tracker0 = Inl err"
    by blast
  with ix have "add_surfaces (Some no_resolutions)
        ([(''R0'', Polygon square_ring [])] @ (''R1'', Polygon [] [])
           # [(''R2'', Polygon far_ring [])]) tracker0 = Inl IndexError"
    by simp
  with e r first_square_added show ?thesis
    by (intro conjI)
qed

text \<open>
  Claim C7, as stated: a resolved layer of several disjoint parts gives one surface per
  part. For a layer of two separate squares the assembly fails with
  \<^verbatim>\<open>AttributeError\<close>.
\<close>

theorem multi_part_layer_counterexample:
  "add_surfaces (Some no_resolutions)
     [(''clad'', MultiPolygon [(square_ring, []), (far_ring, [])])] tracker0 = Inl AttributeError"
  by (simp add: resolution_of_def no_resolutions_def)

text \<open>
  Claim C7, amended: the surface assembly does not go through the parts of a multi-part
  layer. \<^verbatim>\<open>add_xy_surface\<close> reads the rings of its argument as of a single polygon,
  which fails with \<^verbatim>\<open>AttributeError\<close>, and a build whose layers contain a
  multi-part geometry ends with an error.
\<close>

theorem multi_part_layer_aborts_build:
  assumes "(polygon_name, MultiPolygon parts) \<in> set layers"
  shows "add_xy_surface (MultiPolygon parts) resolution self = Inl AttributeError
         \<and> (\<exists>e. add_surfaces resolutions layers meshtracker = Inl e)"
proof
  show "add_xy_surface (MultiPolygon parts) resolution self = Inl AttributeError"
    by simp
  show "\<exists>e. add_surfaces resolutions layers meshtracker = Inl e"
    using assms by (rule add_surfaces_abort) simp
qed

theorem multi_part_layer_aborts_build_witness:
  "(''clad'', MultiPolygon [(square_ring, []), (far_ring, [])])
     \<in> set [(''core'', Polygon square_ring []), (''clad'', MultiPolygon [(square_ring, []), (far_ring, [])])]
   \<and> add_xy_surface (MultiPolygon [(square_ring, []), (far_ring, [])]) None tracker0 = Inl AttributeError
   \<and> (\<exists>e. add_surfaces (Some no_resolutions)
         [(''core'', Polygon square_ring []), (''clad'', MultiPolygon [(square_ring, []), (far_ring, [])])]
         tracker0 = Inl e)"
proof -
  have m: "(''clad'', MultiPolygon [(square_ring, []), (far_ring, [])])
     \<in> set [(''core'', Polygon square_ring []), (''clad'', MultiPolygon [(square_ring, []), (far_ring, [])])]"
    by simp
  from multi_part_layer_aborts_build [OF m] m show ?thesis
    by blast
qed

section \<open>The build without a resolution table\<close>

lemma od_setitem_nonempty: "od_setitem d k v \<noteq> []"
  by (auto simp: od_setitem_def)

lemma polygons_tiled_dict_nonempty:
  assumes "polygon_dict \<noteq> []"
  shows "polygons_tiled_dict difference polygon_dict \<noteq> []"
proof -
  from assms have "length (rev (List.enumerate 0 polygon_dict)) \<noteq> 0"
    by simp
  then have "rev (List.enumerate 0 polygon_dict) \<noteq> []"
    by (simp only: length_0_conv not_False_eq_True)
  then obtain ys y where "rev (List.enumerate 0 polygon_dict) = ys @ [y]"
    by (metis rev_exhaust)
  then show ?thesis
    unfolding polygons_tiled_dict_def
    by (simp add: case_prod_beta od_setitem_nonempty)
qed

lemma build_with_empty_table:
  "mesh_from_polygons keep_polygon [(''core'', Polygon square_ring [])] (Some no_resolutions)
     (1 / 100) (1 / 10) = Inr built_core"
  by (simp add: mesh_from_polygons_def polygons_tiled_dict_def diff_polygon_def od_setitem_def
      keep_polygon_def registry_defs assembly_defs removeAllDuplicates_def generate_mesh_def
      digit_char_def built_core_def)

text \<open>
  Claim C10: with \<^verbatim>\<open>resolutions\<close> left at its default \<^verbatim>\<open>None\<close> the build of
  every non-empty polygon mapping fails with \<^verbatim>\<open>AttributeError\<close>, at the first
  region of the surface assembly; when a table is passed, a name that is not in it gets
  no resolution.
\<close>

theorem missing_resolutions_fail:
  "(polygon_dict \<noteq> [] \<longrightarrow>
      mesh_from_polygons difference polygon_dict None
        default_resolution_min default_resolution_max = Inl AttributeError)
   \<and> (polygon_name \<notin> dom table \<longrightarrow> resolution_of (Some table) polygon_name = Inr None)"
proof (intro conjI impI)
  assume "polygon_dict \<noteq> []"
  then have "rev (polygons_tiled_dict difference polygon_dict) \<noteq> []"
    by (simp add: polygons_tiled_dict_nonempty)
  then obtain n g rest where "rev (polygons_tiled_dict difference polygon_dict) = (n, g) # rest"
    by (metis list.exhaust surj_pair)
  then show "mesh_from_polygons difference polygon_dict None
        default_resolution_min default_resolution_max = Inl AttributeError"
    by (simp add: mesh_from_polygons_def resolution_of_def)
next
  assume "polygon_name \<notin> dom table"
  then show "resolution_of (Some table) polygon_name = Inr None"
    by (simp add: resolution_of_def)
qed



theorem missing_resolutions_fail_witness:
  "[(''core'', Polygon square_ring [])] \<noteq> []
   \<and> mesh_from_polygons keep_polygon [(''core'', Polygon square_ring [])] None (1 / 100) (1 / 10)
       = Inl AttributeError
   \<and> ''core'' \<notin> dom no_resolutions
   \<and> resolution_of (Some no_resolutions) ''core'' = Inr None
   \<and> mesh_from_polygons keep_polygon [(''core'', Polygon square_ring [])] (Some no_resolutions)
       (1 / 100) (1 / 10) = Inr built_core"
proof -
  have d: "''core'' \<notin> dom no_resolutions"
    by (simp add: no_resolutions_def)
  from missing_resolutions_fail
    [of "[(''core'', Polygon square_ring [])]" keep_polygon "1 / 100" "1 / 10" "''core''" no_resolutions]
    d build_with_empty_table
  show ?thesis by simp
qed

end
